theory Spec2Isabelle
  imports Complex_Main
begin

section \<open>Values\<close>

text \<open>
  A float64 cell of a result table. Comparison of floats is exact, so a finite float is
  modelled by the real number it denotes; the three special values are kept apart.
  \<open>flt\<close> is the IEEE comparison \<open><\<close>: false as soon as one side is NaN.
\<close>

datatype fval = NaN | NegInf | Fin real | PosInf

fun flt :: "fval \<Rightarrow> fval \<Rightarrow> bool" where
  "flt NaN y = False"
| "flt x NaN = False"
| "flt x NegInf = False"
| "flt PosInf y = False"
| "flt NegInf y = True"
| "flt (Fin x) PosInf = True"
| "flt (Fin x) (Fin y) = (x < y)"

definition fgt :: "fval \<Rightarrow> fval \<Rightarrow> bool" where
  "fgt x y = flt y x"

text \<open>The double nearest to the literal \<open>0.1\<close> (default of \<open>signif_alpha\<close>).\<close>

definition float_0_1 :: fval where
  "float_0_1 = Fin (3602879701896397 / 36028797018963968)"

text \<open>A cell of the per-cell metadata table \<open>adata.obs\<close>.\<close>

datatype obsval = Str string | Flag bool | NA

text \<open>
  A Python exception: the names of its class and of the classes it inherits from, and its
  argument. \<open>except (A, B)\<close> catches an exception whose class is A or B or a subclass.
\<close>

datatype exn = Exn (exn_mro: "string list") (exn_arg: string)

definition isinstance :: "exn \<Rightarrow> string \<Rightarrow> bool" where
  "isinstance e c = (c \<in> set (exn_mro e))"

definition KeyError :: "string \<Rightarrow> exn" where
  "KeyError k = Exn [''KeyError'', ''LookupError'', ''Exception'', ''BaseException''] k"

definition ValueError :: "string \<Rightarrow> exn" where
  "ValueError k = Exn [''ValueError'', ''Exception'', ''BaseException''] k"

definition FileNotFoundError :: "string \<Rightarrow> exn" where
  "FileNotFoundError k =
     Exn [''FileNotFoundError'', ''OSError'', ''Exception'', ''BaseException''] k"

definition PermissionError :: "string \<Rightarrow> exn" where
  "PermissionError k =
     Exn [''PermissionError'', ''OSError'', ''Exception'', ''BaseException''] k"

section \<open>Data model\<close>

text \<open>A two-dimensional numpy array: its number of columns and its rows.\<close>

record ndarray =
  ncols :: nat
  mrows :: "fval list list"

definition vstack :: "ndarray \<Rightarrow> ndarray \<Rightarrow> exn + ndarray" where
  "vstack a b =
     (if ncols a = ncols b then Inr \<lparr>ncols = ncols a, mrows = mrows a @ mrows b\<rparr>
      else Inl (ValueError ''all the input array dimensions must match''))"

definition transpose_nd :: "ndarray \<Rightarrow> ndarray" where
  "transpose_nd m =
     \<lparr>ncols = length (mrows m), mrows = map (\<lambda>j. map (\<lambda>r. r ! j) (mrows m)) [0..<ncols m]\<rparr>"

text \<open>
  The neighbourhood table \<open>adata.uns["nhood_adata"]\<close>: one row per neighbourhood with the
  columns the workflow reads, as the differential test delivers them.
\<close>

record nhood_row =
  logFC :: fval
  SpatialFDR :: fval

record nhood_adata =
  nhood_obs :: "nhood_row list"

text \<open>The harmonised table \<open>adata.uns["sample_adata"]\<close>: neighbourhoods are its \<open>var\<close> rows.\<close>

record sample_row = nhood_row +
  OOR_score :: fval
  OOR_signif :: int

record sample_adata =
  var :: "sample_row list"
  varm_groups :: ndarray

text \<open>
  The cell collection (AnnData). \<open>obs\<close> is a data frame: its column names and one row per
  cell; \<open>obsm\<close> holds the named per-cell matrices; \<open>uns\<close> holds the two tables above.
  Everything else of an AnnData object (\<open>X\<close>, \<open>var\<close>, layers, graphs) is only read and
  written by the delegated libraries and is carried in \<open>payload\<close>.
\<close>

record 'p anndata =
  obs_keys :: "string list"
  obs :: "(string \<Rightarrow> obsval) list"
  obsm :: "string \<rightharpoonup> ndarray"
  uns_nhood_adata :: "nhood_adata option"
  uns_sample_adata :: "sample_adata option"
  payload :: 'p

type_synonym kwargs = "(string \<times> string) list"

text \<open>
  The delegated libraries (scvi, the embedding procedure, scanpy, milopy), taken as
  parameters. A routine that mutates the collection it is given is a function from the
  collection to the collection afterwards, or to the exception it raises.
  \<open>annotate_nhoods\<close> is given a view; its first argument is the collection viewed, which
  it reaches through the shared \<open>uns\<close>. \<open>slice_payload\<close> is AnnData's row subsetting on
  the part of the collection this file does not look at. \<open>make_nhoods\<close> is always called
  with \<open>prop=0.1\<close>, which is left inside the routine. Binding the keyword arguments of a
  call belongs to the routine called: a \<open>TypeError\<close> for a keyword given twice is one of
  the exceptions it can raise. The values of the extra keyword arguments are opaque and
  written as strings.
\<close>

record ('p, 'm) services =
  SCVI_load :: "string \<Rightarrow> exn + 'm"
  get_latent_representation :: "'m \<Rightarrow> exn + ndarray"
  embedding_scArches ::
    "'p anndata \<Rightarrow> string \<Rightarrow> string option \<Rightarrow> string \<Rightarrow> kwargs \<Rightarrow> exn + 'p anndata"
  neighbors :: "'p anndata \<Rightarrow> string \<Rightarrow> nat \<Rightarrow> exn + 'p anndata"
  make_nhoods :: "'p anndata \<Rightarrow> exn + 'p anndata"
  count_nhoods :: "'p anndata \<Rightarrow> string \<Rightarrow> exn + 'p anndata"
  annotate_nhoods :: "'p anndata \<Rightarrow> 'p anndata \<Rightarrow> string \<Rightarrow> exn + 'p anndata"
  DA_nhoods :: "'p anndata \<Rightarrow> string \<Rightarrow> exn + 'p anndata"
  slice_payload :: "bool list \<Rightarrow> 'p \<Rightarrow> 'p"

section \<open>Store, call log and control flow\<close>

text \<open>
  Every call of a delegated routine is logged with its arguments; a collection argument is
  logged as it is at the time of the call.
\<close>

datatype ('p, 'm) call =
    Call_load string
  | Call_latent 'm
  | Call_embedding "'p anndata" string "string option" string kwargs
  | Call_neighbors "'p anndata" string nat
  | Call_make_nhoods "'p anndata"
  | Call_count_nhoods "'p anndata" string
  | Call_annotate_nhoods "'p anndata" string
  | Call_DA_nhoods "'p anndata" string

text \<open>
  Python variables hold references. The store maps an address to the object there;
  \<open>next_addr\<close> is the first address not yet in use.
\<close>

record ('p, 'm) state =
  heap :: "nat \<Rightarrow> 'p anndata"
  next_addr :: nat
  trace :: "('p, 'm) call list"

type_synonym ('p, 'm, 'a) prog = "('p, 'm) state \<Rightarrow> (exn + 'a) \<times> ('p, 'm) state"

definition ret :: "'a \<Rightarrow> ('p, 'm, 'a) prog" where
  "ret x = (\<lambda>s. (Inr x, s))"

definition throw :: "exn \<Rightarrow> ('p, 'm, 'a) prog" where
  "throw e = (\<lambda>s. (Inl e, s))"

definition lift :: "exn + 'a \<Rightarrow> ('p, 'm, 'a) prog" where
  "lift r = (\<lambda>s. (r, s))"

definition andthen :: "('p, 'm, 'a) prog \<Rightarrow> ('a \<Rightarrow> ('p, 'm, 'b) prog) \<Rightarrow> ('p, 'm, 'b) prog" where
  "andthen m f = (\<lambda>s. case m s of (Inl e, s') \<Rightarrow> (Inl e, s') | (Inr x, s') \<Rightarrow> f x s')"

definition try_except ::
  "('p, 'm, 'a) prog \<Rightarrow> (exn \<Rightarrow> bool) \<Rightarrow> ('p, 'm, 'a) prog \<Rightarrow> ('p, 'm, 'a) prog" where
  "try_except body caught handler =
     (\<lambda>s. case body s of
        (Inl e, s') \<Rightarrow> if caught e then handler s' else (Inl e, s')
      | (Inr x, s') \<Rightarrow> (Inr x, s'))"

definition log :: "('p, 'm) call \<Rightarrow> ('p, 'm, unit) prog" where
  "log c = (\<lambda>s. (Inr (), s\<lparr>trace := trace s @ [c]\<rparr>))"

definition deref :: "nat \<Rightarrow> ('p, 'm, 'p anndata) prog" where
  "deref a = (\<lambda>s. (Inr (heap s a), s))"

definition store :: "nat \<Rightarrow> 'p anndata \<Rightarrow> ('p, 'm, unit) prog" where
  "store a v = (\<lambda>s. (Inr (), s\<lparr>heap := (heap s)(a := v)\<rparr>))"

definition alloc :: "'p anndata \<Rightarrow> ('p, 'm, nat) prog" where
  "alloc v =
     (\<lambda>s. (Inr (next_addr s), s\<lparr>heap := (heap s)(next_addr s := v), next_addr := Suc (next_addr s)\<rparr>))"

section \<open>AnnData and pandas operations used by the workflow\<close>

definition getitem_obs :: "'p anndata \<Rightarrow> string \<Rightarrow> exn + obsval list" where
  "getitem_obs v col =
     (if col \<in> set (obs_keys v) then Inr (map (\<lambda>r. r col) (obs v)) else Inl (KeyError col))"

definition isin :: "obsval list \<Rightarrow> string list \<Rightarrow> bool list" where
  "isin col vals = map (\<lambda>x. x \<in> set (map Str vals)) col"

definition eq_str :: "obsval list \<Rightarrow> string \<Rightarrow> bool list" where
  "eq_str col x = map (\<lambda>y. y = Str x) col"

definition ne_str :: "obsval list \<Rightarrow> string \<Rightarrow> bool list" where
  "ne_str col x = map (\<lambda>y. y \<noteq> Str x) col"

definition pick :: "bool list \<Rightarrow> 'a list \<Rightarrow> 'a list" where
  "pick sel xs = map snd (filter fst (zip sel xs))"

text \<open>\<open>adata[mask]\<close>: the rows of \<open>obs\<close> and of every matrix of \<open>obsm\<close> where the mask holds.\<close>

definition getitem_rows :: "('p, 'm) services \<Rightarrow> bool list \<Rightarrow> 'p anndata \<Rightarrow> 'p anndata" where
  "getitem_rows ext sel v =
     v\<lparr>obs := pick sel (obs v),
       obsm := (\<lambda>k. map_option (\<lambda>m. m\<lparr>mrows := pick sel (mrows m)\<rparr>) (obsm v k)),
       payload := slice_payload ext sel (payload v)\<rparr>"

text \<open>\<open>adata.obsm[key] = m\<close>: refused unless the matrix has one row per cell.\<close>

definition setitem_obsm :: "string \<Rightarrow> ndarray \<Rightarrow> 'p anndata \<Rightarrow> exn + 'p anndata" where
  "setitem_obsm key m v =
     (if length (mrows m) = length (obs v) then Inr (v\<lparr>obsm := (obsm v)(key \<mapsto> m)\<rparr>)
      else Inl (ValueError ''value passed for key has wrong shape''))"

definition setitem_obs :: "string \<Rightarrow> (((string \<Rightarrow> obsval)) \<Rightarrow> obsval) \<Rightarrow> 'p anndata \<Rightarrow> 'p anndata" where
  "setitem_obs key f v =
     v\<lparr>obs_keys := (if key \<in> set (obs_keys v) then obs_keys v else obs_keys v @ [key]),
       obs := map (\<lambda>r. r(key := f r)) (obs v)\<rparr>"

definition n_unique :: "obsval list \<Rightarrow> nat" where
  "n_unique xs = length (remdups xs)"

text \<open>A routine that mutates the object at an address.\<close>

definition in_place :: "('p anndata \<Rightarrow> exn + 'p anndata) \<Rightarrow> nat \<Rightarrow> ('p, 'm, unit) prog" where
  "in_place f a = andthen (deref a) (\<lambda>v. andthen (lift (f v)) (store a))"

section \<open>run_milo\<close>

definition run_milo ::
  "('p, 'm) services \<Rightarrow> nat \<Rightarrow> string \<Rightarrow> string \<Rightarrow> string \<Rightarrow> string \<Rightarrow> string \<Rightarrow> ('p, 'm, unit) prog" where
  "run_milo ext adata_design query_group reference_group sample_col annotation_col design =
     andthen (deref adata_design) (\<lambda>v0.
     andthen (log (Call_make_nhoods v0)) (\<lambda>_.
     andthen (in_place (make_nhoods ext) adata_design) (\<lambda>_.
     andthen (deref adata_design) (\<lambda>v1.
     andthen (log (Call_count_nhoods v1 sample_col)) (\<lambda>_.
     andthen (in_place (\<lambda>v. count_nhoods ext v sample_col) adata_design) (\<lambda>_.
     andthen (deref adata_design) (\<lambda>v2.
     andthen (lift (getitem_obs v2 ''dataset_group'')) (\<lambda>g.
     andthen (log (Call_annotate_nhoods (getitem_rows ext (eq_str g reference_group) v2) annotation_col)) (\<lambda>_.
     andthen (in_place (\<lambda>v. annotate_nhoods ext v (getitem_rows ext (eq_str g reference_group) v2) annotation_col)
                adata_design) (\<lambda>_.
     andthen (deref adata_design) (\<lambda>v3.
     andthen (lift (getitem_obs v3 ''dataset_group'')) (\<lambda>_.
     andthen (store adata_design
                (setitem_obs ''is_query'' (\<lambda>r. Flag (r ''dataset_group'' = Str query_group)) v3)) (\<lambda>_.
     andthen (deref adata_design) (\<lambda>v4.
     andthen (log (Call_DA_nhoods v4 design)) (\<lambda>_.
     in_place (\<lambda>v. DA_nhoods ext v design) adata_design)))))))))))))))"

section \<open>scArches_milo\<close>

text \<open>Line 79: the subset of the three groups, copied to a new object.\<close>

definition subset_datasets ::
  "('p, 'm) services \<Rightarrow> nat \<Rightarrow> string \<Rightarrow> string \<Rightarrow> ('p, 'm, nat) prog" where
  "subset_datasets ext adata embedding_reference diff_reference =
     andthen (deref adata) (\<lambda>v.
     andthen (lift (getitem_obs v ''dataset_group'')) (\<lambda>g.
     alloc (getitem_rows ext (isin g [embedding_reference, diff_reference, ''query'']) v)))"

text \<open>Lines 86 to 90: the body of the \<open>try\<close>.\<close>

definition load_latent ::
  "('p, 'm) services \<Rightarrow> nat \<Rightarrow> string \<Rightarrow> string \<Rightarrow> ('p, 'm, unit) prog" where
  "load_latent ext adata embedding_reference outdir =
     andthen (log (Call_load (outdir @ ''/model_'' @ embedding_reference @ ''/''))) (\<lambda>_.
     andthen (lift (SCVI_load ext (outdir @ ''/model_'' @ embedding_reference @ ''/''))) (\<lambda>vae_ref.
     andthen (log (Call_load (outdir @ ''/model_fit_query2'' @ embedding_reference @ ''/''))) (\<lambda>_.
     andthen (lift (SCVI_load ext (outdir @ ''/model_fit_query2'' @ embedding_reference @ ''/''))) (\<lambda>vae_q.
     andthen (log (Call_latent vae_q)) (\<lambda>_.
     andthen (lift (get_latent_representation ext vae_q)) (\<lambda>z_q.
     andthen (log (Call_latent vae_ref)) (\<lambda>_.
     andthen (lift (get_latent_representation ext vae_ref)) (\<lambda>z_ref.
     andthen (lift (vstack z_q z_ref)) (\<lambda>z.
     in_place (setitem_obsm ''X_scVI'' z) adata)))))))))"

text \<open>Lines 92 to 94 and 96: the call of the embedding procedure.\<close>

definition train_embedding ::
  "('p, 'm) services \<Rightarrow> nat \<Rightarrow> string \<Rightarrow> string option \<Rightarrow> kwargs \<Rightarrow> ('p, 'm, unit) prog" where
  "train_embedding ext adata embedding_reference outdir kwargs =
     andthen (deref adata) (\<lambda>v.
     andthen (log (Call_embedding v embedding_reference outdir ''sample_id'' kwargs)) (\<lambda>_.
     in_place (\<lambda>v. embedding_scArches ext v embedding_reference outdir ''sample_id'' kwargs) adata))"

definition load_failure :: "exn \<Rightarrow> bool" where
  "load_failure e = (isinstance e ''ValueError'' \<or> isinstance e ''FileNotFoundError'')"

text \<open>Lines 82 to 96.\<close>

definition embedding_step ::
  "('p, 'm) services \<Rightarrow> nat \<Rightarrow> string \<Rightarrow> string option \<Rightarrow> kwargs \<Rightarrow> ('p, 'm, unit) prog" where
  "embedding_step ext adata embedding_reference outdir kwargs =
     andthen (deref adata) (\<lambda>v.
       if obsm v ''X_scVI'' = None then
         (case outdir of
            Some d \<Rightarrow>
              try_except (load_latent ext adata embedding_reference d) load_failure
                (train_embedding ext adata embedding_reference outdir kwargs)
          | None \<Rightarrow> train_embedding ext adata embedding_reference outdir kwargs)
       else ret ())"

text \<open>Lines 99 and 100.\<close>

definition drop_embedding_reference ::
  "('p, 'm) services \<Rightarrow> nat \<Rightarrow> string \<Rightarrow> string \<Rightarrow> ('p, 'm, nat) prog" where
  "drop_embedding_reference ext adata embedding_reference diff_reference =
     (if diff_reference \<noteq> embedding_reference then
        andthen (deref adata) (\<lambda>v.
        andthen (lift (getitem_obs v ''dataset_group'')) (\<lambda>g.
        alloc (getitem_rows ext (ne_str g embedding_reference) v)))
      else ret adata)"

text \<open>Lines 103 to 105.\<close>

definition n_samples :: "('p, 'm) services \<Rightarrow> 'p anndata \<Rightarrow> string \<Rightarrow> string \<Rightarrow> exn + nat" where
  "n_samples ext v grp sample_col =
     (case getitem_obs v ''dataset_group'' of
        Inl e \<Rightarrow> Inl e
      | Inr g \<Rightarrow>
          (case getitem_obs (getitem_rows ext (eq_str g grp) v) sample_col of
             Inl e \<Rightarrow> Inl e
           | Inr c \<Rightarrow> Inr (n_unique c)))"

definition make_knn ::
  "('p, 'm) services \<Rightarrow> nat \<Rightarrow> string \<Rightarrow> string \<Rightarrow> ('p, 'm, unit) prog" where
  "make_knn ext adata diff_reference sample_col =
     andthen (deref adata) (\<lambda>v.
     andthen (lift (n_samples ext v diff_reference sample_col)) (\<lambda>n_controls.
     andthen (lift (n_samples ext v ''query'' sample_col)) (\<lambda>n_querys.
     andthen (log (Call_neighbors v ''X_scVI'' ((n_controls + n_querys) * 5))) (\<lambda>_.
     in_place (\<lambda>v. neighbors ext v ''X_scVI'' ((n_controls + n_querys) * 5)) adata))))"

text \<open>Lines 111 to 117.\<close>

definition signif :: "fval \<Rightarrow> nhood_row \<Rightarrow> int" where
  "signif signif_alpha r =
     (if flt (SpatialFDR r) signif_alpha \<and> fgt (logFC r) (Fin 0) then 1 else 0)"

definition harmonize_row :: "fval \<Rightarrow> nhood_row \<Rightarrow> sample_row" where
  "harmonize_row signif_alpha r =
     \<lparr>logFC = logFC r, SpatialFDR = SpatialFDR r,
      OOR_score = logFC r, OOR_signif = signif signif_alpha r\<rparr>"

definition harmonize :: "fval \<Rightarrow> 'p anndata \<Rightarrow> exn + 'p anndata" where
  "harmonize signif_alpha v =
     (case uns_nhood_adata v of
        None \<Rightarrow> Inl (KeyError ''nhood_adata'')
      | Some nh \<Rightarrow>
          (case obsm v ''nhoods'' of
             None \<Rightarrow> Inl (KeyError ''nhoods'')
           | Some g \<Rightarrow>
               if length (mrows (transpose_nd g)) = length (nhood_obs nh) then
                 Inr (v\<lparr>uns_sample_adata :=
                          Some \<lparr>var = map (harmonize_row signif_alpha) (nhood_obs nh),
                                varm_groups = transpose_nd g\<rparr>\<rparr>)
               else Inl (ValueError ''value passed for key groups has wrong shape'')))"

definition scArches_milo ::
  "('p, 'm) services \<Rightarrow> nat \<Rightarrow> string \<Rightarrow> string \<Rightarrow> string \<Rightarrow> string \<Rightarrow> fval \<Rightarrow> string option \<Rightarrow>
   bool \<Rightarrow> string \<Rightarrow> kwargs \<Rightarrow> ('p, 'm, nat) prog" where
  "scArches_milo ext adata embedding_reference diff_reference sample_col annotation_col
     signif_alpha outdir harmonize_output milo_design kwargs =
     andthen (subset_datasets ext adata embedding_reference diff_reference) (\<lambda>a.
     andthen (embedding_step ext a embedding_reference outdir kwargs) (\<lambda>_.
     andthen (drop_embedding_reference ext a embedding_reference diff_reference) (\<lambda>a'.
     andthen (make_knn ext a' diff_reference sample_col) (\<lambda>_.
     andthen (run_milo ext a' ''query'' diff_reference sample_col annotation_col milo_design) (\<lambda>_.
     andthen (if harmonize_output then in_place (harmonize signif_alpha) a' else ret ()) (\<lambda>_.
     ret a'))))))"

section \<open>The three presets\<close>

text \<open>
  The keyword arguments a preset forwards: each parameter of \<open>scArches_milo\<close> other than
  the two references is either given or left to its default.
\<close>

record preset_kwargs =
  kw_sample_col :: "string option"
  kw_annotation_col :: "string option"
  kw_signif_alpha :: "fval option"
  kw_outdir :: "string option option"
  kw_harmonize_output :: "bool option"
  kw_milo_design :: "string option"
  kw_rest :: kwargs

definition default :: "'a \<Rightarrow> 'a option \<Rightarrow> 'a" where
  "default d x = (case x of None \<Rightarrow> d | Some y \<Rightarrow> y)"

text \<open>The call \<open>scArches_milo(adata, embedding_reference=e, diff_reference=d, **kwargs)\<close>.\<close>

definition call_scArches_milo ::
  "('p, 'm) services \<Rightarrow> nat \<Rightarrow> string \<Rightarrow> string \<Rightarrow> preset_kwargs \<Rightarrow> ('p, 'm, nat) prog" where
  "call_scArches_milo ext adata e d kw =
     scArches_milo ext adata e d
       (default ''sample_id'' (kw_sample_col kw))
       (default ''cell_annotation'' (kw_annotation_col kw))
       (default float_0_1 (kw_signif_alpha kw))
       (default None (kw_outdir kw))
       (default True (kw_harmonize_output kw))
       (default ''~ is_query'' (kw_milo_design kw))
       (kw_rest kw)"

definition scArches_atlas_milo_ctrl ::
  "('p, 'm) services \<Rightarrow> nat \<Rightarrow> preset_kwargs \<Rightarrow> ('p, 'm, nat) prog" where
  "scArches_atlas_milo_ctrl ext adata kw = call_scArches_milo ext adata ''atlas'' ''ctrl'' kw"

definition scArches_atlas_milo_atlas ::
  "('p, 'm) services \<Rightarrow> nat \<Rightarrow> preset_kwargs \<Rightarrow> ('p, 'm, nat) prog" where
  "scArches_atlas_milo_atlas ext adata kw = call_scArches_milo ext adata ''atlas'' ''atlas'' kw"

definition scArches_ctrl_milo_ctrl ::
  "('p, 'm) services \<Rightarrow> nat \<Rightarrow> preset_kwargs \<Rightarrow> ('p, 'm, nat) prog" where
  "scArches_ctrl_milo_ctrl ext adata kw = call_scArches_milo ext adata ''ctrl'' ''ctrl'' kw"

section \<open>Reasoning about programs\<close>

text \<open>
  \<open>preserves P G m\<close>: started in a state where \<open>P\<close> holds, \<open>m\<close> ends or raises in a
  state where \<open>P\<close> holds, and \<open>G\<close> holds of the result it returns.
\<close>

definition preserves ::
  "(('p, 'm) state \<Rightarrow> bool) \<Rightarrow> ('a \<Rightarrow> bool) \<Rightarrow> ('p, 'm, 'a) prog \<Rightarrow> bool" where
  "preserves P G m =
     (\<forall>s. P s \<longrightarrow> (case m s of (Inl e, s') \<Rightarrow> P s' | (Inr x, s') \<Rightarrow> P s' \<and> G x))"

text \<open>The library a logged call went to.\<close>

datatype library = Scvi | Embedding | Scanpy | Milopy

fun library_of :: "('p, 'm) call \<Rightarrow> library" where
  "library_of (Call_load p) = Scvi"
| "library_of (Call_latent m) = Scvi"
| "library_of (Call_embedding v r outdir b kw) = Embedding"
| "library_of (Call_neighbors v rep k) = Scanpy"
| "library_of (Call_make_nhoods v) = Milopy"
| "library_of (Call_count_nhoods v c) = Milopy"
| "library_of (Call_annotate_nhoods v c) = Milopy"
| "library_of (Call_DA_nhoods v d) = Milopy"

text \<open>The objects the caller holds are untouched: those below address \<open>n\<close> are as in \<open>H\<close>.\<close>

definition frame :: "(nat \<Rightarrow> 'p anndata) \<Rightarrow> nat \<Rightarrow> ('p, 'm) state \<Rightarrow> bool" where
  "frame H n s = (n \<le> next_addr s \<and> (\<forall>b < n. heap s b = H b))"

text \<open>The log is \<open>T\<close> followed by calls that all satisfy \<open>C\<close>.\<close>

definition extends :: "('p, 'm) call list \<Rightarrow> (('p, 'm) call \<Rightarrow> bool) \<Rightarrow> ('p, 'm) state \<Rightarrow> bool" where
  "extends T C s = (\<exists>calls. trace s = T @ calls \<and> list_all C calls)"

text \<open>
  The number of distinct sample identifiers among the cells of a group, as the
  specification words it.
\<close>

definition distinct_samples :: "'p anndata \<Rightarrow> string \<Rightarrow> string \<Rightarrow> nat" where
  "distinct_samples v grp sample_col =
     card ((\<lambda>r. r sample_col) ` {r \<in> set (obs v). r ''dataset_group'' = Str grp})"

section \<open>A small cohort and stand-ins for the delegated libraries\<close>

text \<open>
  Seven cells: one of the atlas, two control samples, three query samples and one cell of
  a group the workflow does not know. The atlas cell comes before the first query cell.
\<close>

definition cell :: "string \<Rightarrow> string \<Rightarrow> string \<Rightarrow> obsval" where
  "cell g sid = (\<lambda>_. NA)(''dataset_group'' := Str g, ''sample_id'' := Str sid)"

definition cohort :: "unit anndata" where
  "cohort =
     \<lparr>obs_keys = [''dataset_group'', ''sample_id'', ''cell_annotation''],
      obs = [cell ''atlas'' ''a1'', cell ''query'' ''q1'', cell ''ctrl'' ''c1'',
             cell ''query'' ''q2'', cell ''ctrl'' ''c2'', cell ''query'' ''q3'',
             cell ''other'' ''x1''],
      obsm = Map.empty,
      uns_nhood_adata = None,
      uns_sample_adata = None,
      payload = ()\<rparr>"

text \<open>The latent vector the stand-in models give a cell: it tells the groups apart.\<close>

definition latent_of :: "(string \<Rightarrow> obsval) \<Rightarrow> fval list" where
  "latent_of r =
     (if r ''dataset_group'' = Str ''atlas'' then [Fin 0]
      else if r ''dataset_group'' = Str ''ctrl'' then [Fin 1]
      else [Fin 2])"

text \<open>
  The test delivers four neighbourhoods: enriched and significant, fold-change exactly 0,
  corrected p-value exactly at the default threshold, and depleted but significant.
\<close>

definition da_table :: nhood_adata where
  "da_table =
     \<lparr>nhood_obs =
        [\<lparr>logFC = Fin 2, SpatialFDR = Fin (1 / 100)\<rparr>,
         \<lparr>logFC = Fin 0, SpatialFDR = Fin (1 / 100)\<rparr>,
         \<lparr>logFC = Fin 2, SpatialFDR = float_0_1\<rparr>,
         \<lparr>logFC = Fin (- 2), SpatialFDR = Fin (1 / 100)\<rparr>]\<rparr>"

text \<open>
  Directory \<open>saved\<close> holds the two models of the atlas design (model 0 fit on the atlas
  cell, model 1 on the five other cells of the subset); directory \<open>locked\<close> cannot be
  read; any other directory holds nothing.
\<close>

definition stand_in :: "(unit, nat) services" where
  "stand_in =
     \<lparr>SCVI_load = (\<lambda>p.
        if p = ''saved/model_atlas/'' then Inr 0
        else if p = ''saved/model_fit_query2atlas/'' then Inr 1
        else if take 6 p = ''locked'' then Inl (PermissionError p)
        else Inl (FileNotFoundError p)),
      get_latent_representation = (\<lambda>m.
        if m = 0 then Inr \<lparr>ncols = 1, mrows = [[Fin 0]]\<rparr>
        else Inr \<lparr>ncols = 1, mrows = [[Fin 2], [Fin 1], [Fin 2], [Fin 1], [Fin 2]]\<rparr>),
      embedding_scArches = (\<lambda>v ref outdir batch_key kw.
        Inr (v\<lparr>obsm := (obsm v)(''X_scVI'' \<mapsto> \<lparr>ncols = 1, mrows = map latent_of (obs v)\<rparr>)\<rparr>)),
      neighbors = (\<lambda>v rep k. Inr v),
      make_nhoods = (\<lambda>v.
        Inr (v\<lparr>obsm := (obsm v)(''nhoods'' \<mapsto>
               \<lparr>ncols = 4, mrows = map (\<lambda>_. [Fin 1, Fin 1, Fin 1, Fin 1]) (obs v)\<rparr>)\<rparr>)),
      count_nhoods = (\<lambda>v sample_col. Inr v),
      annotate_nhoods = (\<lambda>v view annotation_col. Inr v),
      DA_nhoods = (\<lambda>v design. Inr (v\<lparr>uns_nhood_adata := Some da_table\<rparr>)),
      slice_payload = (\<lambda>sel p. p)\<rparr>"

text \<open>The caller holds the cohort at address 0.\<close>

definition caller_state :: "(unit, nat) state" where
  "caller_state = \<lparr>heap = (\<lambda>_. cohort), next_addr = 1, trace = []\<rparr>"

text \<open>A run with the defaults of the atlas-and-control design: no output directory.\<close>

definition plain_run :: "(exn + nat) \<times> (unit, nat) state" where
  "plain_run =
     scArches_milo stand_in 0 ''atlas'' ''ctrl'' ''sample_id'' ''cell_annotation''
       float_0_1 None True ''~ is_query'' [] caller_state"

text \<open>
  The same cohort with an embedding already attached, and a run on it that is given the
  directory of the saved models.
\<close>

definition cohort_embedded :: "unit anndata" where
  "cohort_embedded =
     cohort\<lparr>obsm := [''X_scVI'' \<mapsto> \<lparr>ncols = 1, mrows = map latent_of (obs cohort)\<rparr>]\<rparr>"

definition embedded_state :: "(unit, nat) state" where
  "embedded_state = \<lparr>heap = (\<lambda>_. cohort_embedded), next_addr = 1, trace = []\<rparr>"

definition embedded_run :: "(exn + nat) \<times> (unit, nat) state" where
  "embedded_run =
     scArches_milo stand_in 0 ''atlas'' ''ctrl'' ''sample_id'' ''cell_annotation''
       float_0_1 (Some ''saved'') True ''~ is_query'' [] embedded_state"








text \<open>The neighbour count and the collection of a logged call of the graph builder.\<close>

fun neighbors_k :: "('p, 'm) call \<Rightarrow> nat option" where
  "neighbors_k (Call_neighbors v rep k) = Some k"
| "neighbors_k c = None"

fun neighbors_arg :: "('p, 'm) call \<Rightarrow> 'p anndata option" where
  "neighbors_arg (Call_neighbors v rep k) = Some v"
| "neighbors_arg c = None"

text \<open>The collection of a logged call of the differential test.\<close>

fun DA_arg :: "('p, 'm) call \<Rightarrow> 'p anndata option" where
  "DA_arg (Call_DA_nhoods v design) = Some v"
| "DA_arg c = None"

text \<open>Lines 98 to 118 of the workflow: everything after the embedding step.\<close>

abbreviation lines_98_to_118 ::
  "('p, 'm) services \<Rightarrow> nat \<Rightarrow> string \<Rightarrow> string \<Rightarrow> string \<Rightarrow> string \<Rightarrow> fval \<Rightarrow> bool \<Rightarrow> string \<Rightarrow>
   ('p, 'm, nat) prog" where
  "lines_98_to_118 ext a e d sc ac alpha ho design \<equiv>
     andthen (drop_embedding_reference ext a e d) (\<lambda>a'.
     andthen (make_knn ext a' d sc) (\<lambda>_.
     andthen (run_milo ext a' ''query'' d sc ac design) (\<lambda>_.
     andthen (if ho then in_place (harmonize alpha) a' else ret ()) (\<lambda>_.
     ret a'))))"

section \<open>Control flow lemmas\<close>

lemma andthen_apply:
  "andthen m f s = (case m s of (Inl e, s') \<Rightarrow> (Inl e, s') | (Inr x, s') \<Rightarrow> f x s')"
  by (simp add: andthen_def)

lemma try_except_apply:
  "try_except body caught handler s =
     (case body s of
        (Inl e, s') \<Rightarrow> if caught e then handler s' else (Inl e, s')
      | (Inr x, s') \<Rightarrow> (Inr x, s'))"
  by (simp add: try_except_def)

text \<open>
  Running a program on a given state goes statement by statement: with the two rules
  below the simplifier computes the state a statement starts from before it looks at the
  statement, and leaves the statements after it alone until then.
\<close>

lemma andthen_cong_weak: "s = s' \<Longrightarrow> andthen m f s = andthen m f s'"
  by simp

lemma try_except_cong_weak: "s = s' \<Longrightarrow> try_except b c h s = try_except b c h s'"
  by simp

lemmas prims_apply = andthen_apply try_except_apply
  ret_def [THEN fun_cong] throw_def [THEN fun_cong] lift_def [THEN fun_cong]
  log_def [THEN fun_cong] deref_def [THEN fun_cong] store_def [THEN fun_cong]
  alloc_def [THEN fun_cong] in_place_def [THEN fun_cong]

lemmas stages_apply =
  run_milo_def [THEN fun_cong] subset_datasets_def [THEN fun_cong]
  load_latent_def [THEN fun_cong] train_embedding_def [THEN fun_cong]
  embedding_step_def [THEN fun_cong] drop_embedding_reference_def [THEN fun_cong]
  make_knn_def [THEN fun_cong] scArches_milo_def [THEN fun_cong]

lemmas ops = getitem_obs_def isin_def eq_str_def ne_str_def pick_def getitem_rows_def
  setitem_obsm_def setitem_obs_def n_unique_def vstack_def transpose_nd_def
  n_samples_def harmonize_def load_failure_def

lemmas cohort_defs = cell_def cohort_def latent_of_def da_table_def stand_in_def caller_state_def

lemmas eval_congs = andthen_cong_weak try_except_cong_weak
  sum.case_cong_weak prod.case_cong_weak option.case_cong_weak

lemma in_place_Inr:
  "in_place f a s = (Inr u, s') \<Longrightarrow> \<exists>v. f (heap s a) = Inr v \<and> s' = s\<lparr>heap := (heap s)(a := v)\<rparr>"
  by (auto simp: in_place_def andthen_def deref_def lift_def store_def split: sum.splits)

lemma andthen_Inr:
  "andthen m f s = (Inr x, s') \<Longrightarrow> \<exists>y s1. m s = (Inr y, s1) \<and> f y s1 = (Inr x, s')"
  by (simp add: andthen_def split: prod.splits sum.splits)

text \<open>Properties of the state that every statement of a program keeps.\<close>

lemma preservesI:
  assumes l: "\<And>s e s'. P s \<Longrightarrow> m s = (Inl e, s') \<Longrightarrow> P s'"
    and r: "\<And>s x s'. P s \<Longrightarrow> m s = (Inr x, s') \<Longrightarrow> P s' \<and> G x"
  shows "preserves P G m"
  unfolding preserves_def
proof (intro allI impI)
  fix s assume P: "P s"
  show "case m s of (Inl e, s') \<Rightarrow> P s' | (Inr x, s') \<Rightarrow> P s' \<and> G x"
  proof (cases "m s")
    case (Pair res s')
    show ?thesis
    proof (cases res)
      case (Inl e)
      with Pair l [OF P] show ?thesis by simp
    next
      case (Inr x)
      with Pair r [OF P] show ?thesis by simp
    qed
  qed
qed

lemma preserves_Inl: "preserves P G m \<Longrightarrow> P s \<Longrightarrow> m s = (Inl e, s') \<Longrightarrow> P s'"
  unfolding preserves_def by (drule spec [of _ s]) simp

lemma preserves_Inr: "preserves P G m \<Longrightarrow> P s \<Longrightarrow> m s = (Inr x, s') \<Longrightarrow> P s' \<and> G x"
  unfolding preserves_def by (drule spec [of _ s]) simp

lemma preserves_state:
  assumes "preserves P G m" and "P s" and "m s = (r, s')"
  shows "P s'"
proof (cases r)
  case (Inl e)
  with assms(3) have "m s = (Inl e, s')" by simp
  then show ?thesis by (rule preserves_Inl [OF assms(1,2)])
next
  case (Inr x)
  with assms(3) have "m s = (Inr x, s')" by simp
  then have "P s' \<and> G x" by (rule preserves_Inr [OF assms(1,2)])
  then show ?thesis by simp
qed

lemma preserves_andthen:
  assumes m: "preserves P G m" and f: "\<And>x. G x \<Longrightarrow> preserves P G' (f x)"
  shows "preserves P G' (andthen m f)"
proof (rule preservesI)
  fix s e s' assume P: "P s" and r: "andthen m f s = (Inl e, s')"
  show "P s'"
  proof (cases "m s")
    case (Pair r1 s1)
    show ?thesis
    proof (cases r1)
      case (Inl e1)
      with Pair r have "s' = s1" by (simp add: andthen_def)
      with preserves_Inl [OF m P] Pair Inl show ?thesis by simp
    next
      case (Inr y)
      with Pair r have "f y s1 = (Inl e, s')" by (simp add: andthen_def)
      moreover have "P s1 \<and> G y" using preserves_Inr [OF m P] Pair Inr by simp
      ultimately show ?thesis using preserves_Inl [OF f] by blast
    qed
  qed
next
  fix s x s' assume P: "P s" and r: "andthen m f s = (Inr x, s')"
  show "P s' \<and> G' x"
  proof (cases "m s")
    case (Pair r1 s1)
    show ?thesis
    proof (cases r1)
      case (Inl e1)
      with Pair r show ?thesis by (simp add: andthen_def)
    next
      case (Inr y)
      with Pair r have "f y s1 = (Inr x, s')" by (simp add: andthen_def)
      moreover have "P s1 \<and> G y" using preserves_Inr [OF m P] Pair Inr by simp
      ultimately show ?thesis using preserves_Inr [OF f] by blast
    qed
  qed
qed

lemma preserves_try:
  assumes b: "preserves P G body" and h: "preserves P G handler"
  shows "preserves P G (try_except body caught handler)"
proof (rule preservesI)
  fix s e s' assume P: "P s" and r: "try_except body caught handler s = (Inl e, s')"
  show "P s'"
  proof (cases "body s")
    case (Pair r1 s1)
    have P1: "P s1" using preserves_state [OF b P Pair] .
    show ?thesis
    proof (cases r1)
      case (Inl e1)
      show ?thesis
      proof (cases "caught e1")
        case True
        with Pair Inl r have "handler s1 = (Inl e, s')" by (simp add: try_except_def)
        with preserves_Inl [OF h P1] show ?thesis by simp
      next
        case False
        with Pair Inl r have "s' = s1" by (simp add: try_except_def)
        with P1 show ?thesis by simp
      qed
    next
      case (Inr y)
      with Pair r show ?thesis by (simp add: try_except_def)
    qed
  qed
next
  fix s x s' assume P: "P s" and r: "try_except body caught handler s = (Inr x, s')"
  show "P s' \<and> G x"
  proof (cases "body s")
    case (Pair r1 s1)
    have P1: "P s1" using preserves_state [OF b P Pair] .
    show ?thesis
    proof (cases r1)
      case (Inl e1)
      show ?thesis
      proof (cases "caught e1")
        case True
        with Pair Inl r have "handler s1 = (Inr x, s')" by (simp add: try_except_def)
        with preserves_Inr [OF h P1] show ?thesis by simp
      next
        case False
        with Pair Inl r show ?thesis by (simp add: try_except_def)
      qed
    next
      case (Inr y)
      with Pair r have "x = y" "s' = s1" by (simp_all add: try_except_def)
      with preserves_Inr [OF b P] Pair Inr show ?thesis by simp
    qed
  qed
qed

lemma preserves_ret: "G x \<Longrightarrow> preserves P G (ret x)"
  by (simp add: preserves_def ret_def)

lemma preserves_lift: "preserves P (\<lambda>x. r = Inr x) (lift r)"
  by (cases r) (simp_all add: preserves_def lift_def)

lemma preserves_deref: "preserves P (\<lambda>v. True) (deref a)"
  by (simp add: preserves_def deref_def)

lemma preserves_log:
  "(\<And>s. P s \<Longrightarrow> P (s\<lparr>trace := trace s @ [c]\<rparr>)) \<Longrightarrow> preserves P (\<lambda>u. True) (log c)"
  by (simp add: preserves_def log_def)

lemma preserves_store:
  "(\<And>s. P s \<Longrightarrow> P (s\<lparr>heap := (heap s)(a := v)\<rparr>)) \<Longrightarrow> preserves P (\<lambda>u. True) (store a v)"
  by (simp add: preserves_def store_def)

lemma preserves_in_place:
  "(\<And>s v. P s \<Longrightarrow> P (s\<lparr>heap := (heap s)(a := v)\<rparr>)) \<Longrightarrow>
   preserves P (\<lambda>u. True) (in_place f a)"
  unfolding preserves_def in_place_def andthen_def deref_def lift_def store_def
  by (simp split: sum.splits)

lemma preserves_alloc:
  "(\<And>s. P s \<Longrightarrow>
      P (s\<lparr>heap := (heap s)(next_addr s := v), next_addr := Suc (next_addr s)\<rparr>) \<and> G (next_addr s))
   \<Longrightarrow> preserves P G (alloc v)"
  by (simp add: preserves_def alloc_def)

lemma preserves_if:
  "(c \<Longrightarrow> preserves P G m1) \<Longrightarrow> (\<not> c \<Longrightarrow> preserves P G m2) \<Longrightarrow>
   preserves P G (if c then m1 else m2)"
  by simp

section \<open>The workflow, stage by stage\<close>

text \<open>Stages, for any state property kept by the statements they are made of.\<close>

lemma preserves_andthen_u:
  "preserves P (\<lambda>x. True) m \<Longrightarrow> (\<And>x. preserves P G (f x)) \<Longrightarrow> preserves P G (andthen m f)"
  by (rule preserves_andthen)

lemma preserves_lift_u: "preserves P (\<lambda>x. True) (lift r)"
  by (cases r) (simp_all add: preserves_def lift_def)

lemmas preserves_intros = preserves_andthen_u preserves_deref preserves_lift_u preserves_log
  preserves_store preserves_in_place preserves_if preserves_try

lemma run_milo_preserves:
  assumes h: "\<And>s v. P s \<Longrightarrow> P (s\<lparr>heap := (heap s)(a := v)\<rparr>)"
    and l: "\<And>s c. P s \<Longrightarrow> library_of c = Milopy \<Longrightarrow> P (s\<lparr>trace := trace s @ [c]\<rparr>)"
  shows "preserves P (\<lambda>u. True) (run_milo ext a q r sc ac dsg)"
  unfolding run_milo_def
  by (intro preserves_intros h l) simp_all

lemma preserves_andthen_lift:
  "(\<And>x. r = Inr x \<Longrightarrow> preserves P G (f x)) \<Longrightarrow> preserves P G (andthen (lift r) f)"
  by (rule preserves_andthen [OF preserves_lift])

lemma subset_datasets_preserves:
  assumes al: "\<And>s v. P s \<Longrightarrow>
      P (s\<lparr>heap := (heap s)(next_addr s := v), next_addr := Suc (next_addr s)\<rparr>) \<and> G (next_addr s)"
  shows "preserves P G (subset_datasets ext a e d)"
  unfolding subset_datasets_def
  by (intro preserves_intros preserves_alloc al)

lemma drop_embedding_reference_preserves:
  assumes al: "\<And>s v. P s \<Longrightarrow>
      P (s\<lparr>heap := (heap s)(next_addr s := v), next_addr := Suc (next_addr s)\<rparr>) \<and> G (next_addr s)"
    and a: "G a"
  shows "preserves P G (drop_embedding_reference ext a e d)"
  unfolding drop_embedding_reference_def
  by (intro preserves_intros preserves_alloc al preserves_ret a)

lemma make_knn_preserves:
  assumes h: "\<And>s v. P s \<Longrightarrow> P (s\<lparr>heap := (heap s)(a := v)\<rparr>)"
    and l: "\<And>s v n1 n2. P s \<Longrightarrow> n_samples ext v d sc = Inr n1 \<Longrightarrow>
      n_samples ext v ''query'' sc = Inr n2 \<Longrightarrow>
      P (s\<lparr>trace := trace s @ [Call_neighbors v ''X_scVI'' ((n1 + n2) * 5)]\<rparr>)"
  shows "preserves P (\<lambda>u. True) (make_knn ext a d sc)"
  unfolding make_knn_def
  by (intro preserves_andthen_lift preserves_intros h l) simp_all

lemma load_latent_preserves:
  assumes h: "\<And>s v. P s \<Longrightarrow> P (s\<lparr>heap := (heap s)(a := v)\<rparr>)"
    and l: "\<And>s c. P s \<Longrightarrow> library_of c = Scvi \<Longrightarrow> P (s\<lparr>trace := trace s @ [c]\<rparr>)"
  shows "preserves P (\<lambda>u. True) (load_latent ext a e dir)"
  unfolding load_latent_def
  by (intro preserves_intros h l) simp_all

lemma train_embedding_preserves:
  assumes h: "\<And>s v. P s \<Longrightarrow> P (s\<lparr>heap := (heap s)(a := v)\<rparr>)"
    and l: "\<And>s c. P s \<Longrightarrow> library_of c = Embedding \<Longrightarrow> P (s\<lparr>trace := trace s @ [c]\<rparr>)"
  shows "preserves P (\<lambda>u. True) (train_embedding ext a e outdir kw)"
  unfolding train_embedding_def
  by (intro preserves_intros h l) simp_all

lemma embedding_step_preserves:
  assumes h: "\<And>s v. P s \<Longrightarrow> P (s\<lparr>heap := (heap s)(a := v)\<rparr>)"
    and l: "\<And>s c. P s \<Longrightarrow> library_of c = Scvi \<or> library_of c = Embedding \<Longrightarrow>
      P (s\<lparr>trace := trace s @ [c]\<rparr>)"
  shows "preserves P (\<lambda>u. True) (embedding_step ext a e outdir kw)"
proof -
  have t: "preserves P (\<lambda>u. True) (train_embedding ext a e od kw)" for od
    by (rule train_embedding_preserves) (simp_all add: h l)
  have ld: "preserves P (\<lambda>u. True) (load_latent ext a e dir)" for dir
    by (rule load_latent_preserves) (simp_all add: h l)
  show ?thesis
    unfolding embedding_step_def
    by (cases outdir) (auto intro!: preserves_intros preserves_ret t ld)
qed

lemma lines_98_to_118_preserves:
  assumes al: "\<And>s v. P s \<Longrightarrow>
      P (s\<lparr>heap := (heap s)(next_addr s := v), next_addr := Suc (next_addr s)\<rparr>) \<and> G (next_addr s)"
    and h: "\<And>s b v. P s \<Longrightarrow> G b \<Longrightarrow> P (s\<lparr>heap := (heap s)(b := v)\<rparr>)"
    and lm: "\<And>s c. P s \<Longrightarrow> library_of c = Milopy \<Longrightarrow> P (s\<lparr>trace := trace s @ [c]\<rparr>)"
    and ln: "\<And>s v n1 n2. P s \<Longrightarrow> n_samples ext v d sc = Inr n1 \<Longrightarrow>
      n_samples ext v ''query'' sc = Inr n2 \<Longrightarrow>
      P (s\<lparr>trace := trace s @ [Call_neighbors v ''X_scVI'' ((n1 + n2) * 5)]\<rparr>)"
    and a: "G a"
  shows "preserves P G (lines_98_to_118 ext a e d sc ac alpha ho design)"
proof (rule preserves_andthen [OF drop_embedding_reference_preserves [where G = G, OF al a]])
  fix b assume b: "G b"
  show "preserves P G
     (andthen (make_knn ext b d sc) (\<lambda>_.
      andthen (run_milo ext b ''query'' d sc ac design) (\<lambda>_.
      andthen (if ho then in_place (harmonize alpha) b else ret ()) (\<lambda>_. ret b))))"
  proof (intro preserves_andthen_u)
    show "preserves P (\<lambda>x. True) (make_knn ext b d sc)"
      by (rule make_knn_preserves) (blast intro: h b ln)+
    show "preserves P (\<lambda>x. True) (run_milo ext b ''query'' d sc ac design)"
      by (rule run_milo_preserves) (simp_all add: h b lm)
    show "preserves P (\<lambda>x. True) (if ho then in_place (harmonize alpha) b else ret ())"
      by (auto intro!: preserves_in_place preserves_ret simp: h b)
    show "preserves P G (ret b)" using b by (rule preserves_ret)
  qed
qed

lemma scArches_milo_preserves:
  assumes al: "\<And>s v. P s \<Longrightarrow>
      P (s\<lparr>heap := (heap s)(next_addr s := v), next_addr := Suc (next_addr s)\<rparr>) \<and> G (next_addr s)"
    and h: "\<And>s b v. P s \<Longrightarrow> G b \<Longrightarrow> P (s\<lparr>heap := (heap s)(b := v)\<rparr>)"
    and l: "\<And>s c. P s \<Longrightarrow> library_of c \<noteq> Scanpy \<Longrightarrow> P (s\<lparr>trace := trace s @ [c]\<rparr>)"
    and ln: "\<And>s v n1 n2. P s \<Longrightarrow> n_samples ext v d sc = Inr n1 \<Longrightarrow>
      n_samples ext v ''query'' sc = Inr n2 \<Longrightarrow>
      P (s\<lparr>trace := trace s @ [Call_neighbors v ''X_scVI'' ((n1 + n2) * 5)]\<rparr>)"
  shows "preserves P G (scArches_milo ext adata e d sc ac alpha outdir ho design kw)"
  unfolding scArches_milo_def
proof (rule preserves_andthen [OF subset_datasets_preserves [where G = G, OF al]])
  fix a assume a: "G a"
  show "preserves P G
     (andthen (embedding_step ext a e outdir kw) (\<lambda>_.
        lines_98_to_118 ext a e d sc ac alpha ho design))"
  proof (rule preserves_andthen_u)
    show "preserves P (\<lambda>x. True) (embedding_step ext a e outdir kw)"
      by (rule embedding_step_preserves) (auto simp: h a l)
    show "preserves P G (lines_98_to_118 ext a e d sc ac alpha ho design)"
    proof -
      have lm: "\<And>s c. P s \<Longrightarrow> library_of c = Milopy \<Longrightarrow> P (s\<lparr>trace := trace s @ [c]\<rparr>)"
        by (simp add: l)
      show ?thesis
        by (rule lines_98_to_118_preserves [where G = G]) (rule al h ln lm a | assumption)+
    qed
  qed
qed

lemma frame_alloc:
  "frame H n s \<Longrightarrow>
   frame H n (s\<lparr>heap := (heap s)(next_addr s := v), next_addr := Suc (next_addr s)\<rparr>) \<and>
   n \<le> next_addr s"
  by (simp add: frame_def)

lemma frame_store: "frame H n s \<Longrightarrow> n \<le> b \<Longrightarrow> frame H n (s\<lparr>heap := (heap s)(b := v)\<rparr>)"
  by (simp add: frame_def)

lemma frame_log: "frame H n s \<Longrightarrow> frame H n (s\<lparr>trace := t\<rparr>)"
  by (simp add: frame_def)

lemma scArches_milo_frame:
  "preserves (frame H n) (\<lambda>a. n \<le> a) (scArches_milo ext adata e d sc ac alpha outdir ho design kw)"
  by (rule scArches_milo_preserves) (simp_all add: frame_alloc frame_store frame_log)

lemma pick_map: "pick (map P xs) xs = filter P xs"
  by (induction xs) (simp_all add: pick_def)

lemma obs_getitem_rows_eq:
  "obs (getitem_rows ext (eq_str (map (\<lambda>r. r col) (obs v)) x) v) = filter (\<lambda>r. r col = Str x) (obs v)"
  by (simp add: getitem_rows_def eq_str_def pick_map [symmetric] comp_def)

lemma n_samples_eq:
  assumes "n_samples ext v grp sc = Inr n"
  shows "n = distinct_samples v grp sc"
proof -
  from assms have k: "''dataset_group'' \<in> set (obs_keys v)"
    by (auto simp: n_samples_def getitem_obs_def split: if_splits)
  have "distinct_samples v grp sc =
      length (remdups (map (\<lambda>r. r sc) (filter (\<lambda>r. r ''dataset_group'' = Str grp) (obs v))))"
    by (simp add: distinct_samples_def length_remdups_card_conv)
  with assms k show ?thesis
    by (auto simp: n_samples_def getitem_obs_def n_unique_def obs_getitem_rows_eq
        split: if_splits)
qed

lemma extends_alloc: "extends T C s \<Longrightarrow> extends T C (s\<lparr>heap := h, next_addr := n\<rparr>)"
  by (simp add: extends_def)

lemma extends_store: "extends T C s \<Longrightarrow> extends T C (s\<lparr>heap := h\<rparr>)"
  by (simp add: extends_def)

lemma extends_log: "extends T C s \<Longrightarrow> C c \<Longrightarrow> extends T C (s\<lparr>trace := trace s @ [c]\<rparr>)"
  by (auto simp: extends_def)

lemma extends_init: "extends (trace s) C s"
  by (simp add: extends_def)

lemma harmonize_step_trace:
  "(if ho then in_place (harmonize alpha) a else ret ()) s = (r, s') \<Longrightarrow> trace s' = trace s"
  by (auto simp: in_place_def andthen_def deref_def lift_def store_def ret_def
      split: if_splits sum.splits)

lemma make_knn_Inr:
  assumes "make_knn ext a d sc s = (Inr u, s')"
  shows "\<exists>v'. neighbors ext (heap s a) ''X_scVI''
            (5 * (distinct_samples (heap s a) d sc + distinct_samples (heap s a) ''query'' sc)) = Inr v' \<and>
     s' = s\<lparr>trace := trace s @ [Call_neighbors (heap s a) ''X_scVI''
            (5 * (distinct_samples (heap s a) d sc + distinct_samples (heap s a) ''query'' sc))],
           heap := (heap s)(a := v')\<rparr>"
proof -
  from assms obtain n1 where n1: "n_samples ext (heap s a) d sc = Inr n1"
    by (cases "n_samples ext (heap s a) d sc")
       (simp_all add: make_knn_def andthen_def deref_def lift_def)
  from assms n1 obtain n2 where n2: "n_samples ext (heap s a) ''query'' sc = Inr n2"
    by (cases "n_samples ext (heap s a) ''query'' sc")
       (simp_all add: make_knn_def andthen_def deref_def lift_def)
  have k: "(n1 + n2) * 5 =
      5 * (distinct_samples (heap s a) d sc + distinct_samples (heap s a) ''query'' sc)"
    using n_samples_eq [OF n1] n_samples_eq [OF n2] by simp
  from assms n1 n2 show ?thesis
    unfolding k [symmetric]
    by (auto simp: make_knn_def andthen_def deref_def lift_def log_def in_place_def store_def
        split: sum.splits)
qed


lemma scArches_milo_Inr:
  assumes "scArches_milo ext adata e d sc ac alpha outdir ho design kw s = (Inr a', s')"
  shows "\<exists>a s1 s2 s3 s4 s5.
     subset_datasets ext adata e d s = (Inr a, s1) \<and>
     embedding_step ext a e outdir kw s1 = (Inr (), s2) \<and>
     drop_embedding_reference ext a e d s2 = (Inr a', s3) \<and>
     make_knn ext a' d sc s3 = (Inr (), s4) \<and>
     run_milo ext a' ''query'' d sc ac design s4 = (Inr (), s5) \<and>
     (if ho then in_place (harmonize alpha) a' else ret ()) s5 = (Inr (), s')"
proof -
  from assms obtain a s1 where 1: "subset_datasets ext adata e d s = (Inr a, s1)"
    and r1: "andthen (embedding_step ext a e outdir kw) (\<lambda>_.
       andthen (drop_embedding_reference ext a e d) (\<lambda>a'.
       andthen (make_knn ext a' d sc) (\<lambda>_.
       andthen (run_milo ext a' ''query'' d sc ac design) (\<lambda>_.
       andthen (if ho then in_place (harmonize alpha) a' else ret ()) (\<lambda>_.
       ret a'))))) s1 = (Inr a', s')"
    unfolding scArches_milo_def by (blast dest: andthen_Inr)
  from r1 obtain u2 s2 where 2: "embedding_step ext a e outdir kw s1 = (Inr u2, s2)"
    and r2: "andthen (drop_embedding_reference ext a e d) (\<lambda>a'.
       andthen (make_knn ext a' d sc) (\<lambda>_.
       andthen (run_milo ext a' ''query'' d sc ac design) (\<lambda>_.
       andthen (if ho then in_place (harmonize alpha) a' else ret ()) (\<lambda>_.
       ret a')))) s2 = (Inr a', s')"
    by (blast dest: andthen_Inr)
  from r2 obtain b s3 where 3: "drop_embedding_reference ext a e d s2 = (Inr b, s3)"
    and r3: "andthen (make_knn ext b d sc) (\<lambda>_.
       andthen (run_milo ext b ''query'' d sc ac design) (\<lambda>_.
       andthen (if ho then in_place (harmonize alpha) b else ret ()) (\<lambda>_.
       ret b))) s3 = (Inr a', s')"
    by (blast dest: andthen_Inr)
  from r3 obtain u4 s4 where 4: "make_knn ext b d sc s3 = (Inr u4, s4)"
    and r4: "andthen (run_milo ext b ''query'' d sc ac design) (\<lambda>_.
       andthen (if ho then in_place (harmonize alpha) b else ret ()) (\<lambda>_.
       ret b)) s4 = (Inr a', s')"
    by (blast dest: andthen_Inr)
  from r4 obtain u5 s5 where 5: "run_milo ext b ''query'' d sc ac design s4 = (Inr u5, s5)"
    and r5: "andthen (if ho then in_place (harmonize alpha) b else ret ()) (\<lambda>_. ret b) s5
       = (Inr a', s')"
    by (blast dest: andthen_Inr)
  from r5 obtain u6 s6
    where 6: "(if ho then in_place (harmonize alpha) b else ret ()) s5 = (Inr u6, s6)"
    and r6: "ret b s6 = (Inr a', s')"
    by (blast dest: andthen_Inr)
  from r6 have "a' = b" "s' = s6" by (simp_all add: ret_def)
  with 1 2 3 4 5 6 show ?thesis by auto
qed

lemma subset_datasets_same_trace:
  "subset_datasets ext a e d s = (r, s') \<Longrightarrow> trace s' = trace s"
  by (auto simp: subset_datasets_def andthen_def deref_def lift_def alloc_def split: sum.splits)

lemma drop_embedding_reference_same_trace:
  "drop_embedding_reference ext a e d s = (r, s') \<Longrightarrow> trace s' = trace s"
  by (auto simp: drop_embedding_reference_def andthen_def deref_def lift_def alloc_def ret_def
      split: sum.splits if_splits)

lemma embedding_step_calls:
  assumes "embedding_step ext a e outdir kw s = (r, s')"
  shows "\<exists>calls. trace s' = trace s @ calls \<and>
     list_all (\<lambda>c. library_of c = Scvi \<or> library_of c = Embedding) calls"
proof -
  have "preserves (extends (trace s) (\<lambda>c. library_of c = Scvi \<or> library_of c = Embedding))
      (\<lambda>u. True) (embedding_step ext a e outdir kw)"
    by (rule embedding_step_preserves) (simp_all add: extends_store extends_log)
  from preserves_state [OF this extends_init assms] show ?thesis by (simp add: extends_def)
qed

lemma run_milo_calls:
  assumes "run_milo ext a q d sc ac design s = (r, s')"
  shows "\<exists>calls. trace s' = trace s @ calls \<and> list_all (\<lambda>c. library_of c = Milopy) calls"
proof -
  have "preserves (extends (trace s) (\<lambda>c. library_of c = Milopy))
      (\<lambda>u. True) (run_milo ext a q d sc ac design)"
    by (rule run_milo_preserves) (simp_all add: extends_store extends_log)
  from preserves_state [OF this extends_init assms] show ?thesis by (simp add: extends_def)
qed

text \<open>The calls of a run that returns.\<close>

lemma scArches_milo_Inr_calls:
  assumes "scArches_milo ext adata e d sc ac alpha outdir ho design kw s = (Inr a', s')"
  shows "\<exists>a s1 s2 s3 ce cm.
     subset_datasets ext adata e d s = (Inr a, s1) \<and>
     embedding_step ext a e outdir kw s1 = (Inr (), s2) \<and>
     drop_embedding_reference ext a e d s2 = (Inr a', s3) \<and>
     list_all (\<lambda>c. library_of c = Scvi \<or> library_of c = Embedding) ce \<and>
     list_all (\<lambda>c. library_of c = Milopy) cm \<and>
     trace s' = trace s @ ce @
       [Call_neighbors (heap s3 a') ''X_scVI''
          (5 * (distinct_samples (heap s3 a') d sc + distinct_samples (heap s3 a') ''query'' sc))]
       @ cm"
proof -
  from scArches_milo_Inr [OF assms] obtain a s1 s2 s3 s4 s5 where
    1: "subset_datasets ext adata e d s = (Inr a, s1)" and
    2: "embedding_step ext a e outdir kw s1 = (Inr (), s2)" and
    3: "drop_embedding_reference ext a e d s2 = (Inr a', s3)" and
    4: "make_knn ext a' d sc s3 = (Inr (), s4)" and
    5: "run_milo ext a' ''query'' d sc ac design s4 = (Inr (), s5)" and
    6: "(if ho then in_place (harmonize alpha) a' else ret ()) s5 = (Inr (), s')"
    by blast
  from embedding_step_calls [OF 2] obtain ce where
    ce: "trace s2 = trace s1 @ ce" "list_all (\<lambda>c. library_of c = Scvi \<or> library_of c = Embedding) ce"
    by blast
  from run_milo_calls [OF 5] obtain cm where
    cm: "trace s5 = trace s4 @ cm" "list_all (\<lambda>c. library_of c = Milopy) cm"
    by blast
  from make_knn_Inr [OF 4] have
    t4: "trace s4 = trace s3 @ [Call_neighbors (heap s3 a') ''X_scVI''
          (5 * (distinct_samples (heap s3 a') d sc + distinct_samples (heap s3 a') ''query'' sc))]"
    by auto
  have "trace s' = trace s @ ce @
       [Call_neighbors (heap s3 a') ''X_scVI''
          (5 * (distinct_samples (heap s3 a') d sc + distinct_samples (heap s3 a') ''query'' sc))]
       @ cm"
    using subset_datasets_same_trace [OF 1] drop_embedding_reference_same_trace [OF 3]
      harmonize_step_trace [OF 6] ce(1) cm(1) t4 by simp
  with 1 2 3 ce(2) cm(2) show ?thesis by blast
qed


lemma obs_getitem_rows_ne:
  "obs (getitem_rows ext (ne_str (map (\<lambda>r. r col) (obs v)) x) v) =
     filter (\<lambda>r. r col \<noteq> Str x) (obs v)"
  by (simp add: getitem_rows_def ne_str_def pick_map [symmetric] comp_def)

lemma subset_datasets_Inr:
  assumes "subset_datasets ext adata e d s = (Inr a, s1)"
  shows "a = next_addr s \<and> ''dataset_group'' \<in> set (obs_keys (heap s adata)) \<and>
     s1 = s\<lparr>heap := (heap s)(a :=
              getitem_rows ext
                (isin (map (\<lambda>r. r ''dataset_group'') (obs (heap s adata))) [e, d, ''query''])
                (heap s adata)),
            next_addr := Suc (next_addr s)\<rparr>"
  using assms
  by (auto simp: subset_datasets_def andthen_def deref_def lift_def alloc_def getitem_obs_def
      split: if_splits)


lemma drop_embedding_reference_Inr:
  assumes "drop_embedding_reference ext a e d s = (Inr a', s')"
  shows "(d = e \<longrightarrow> a' = a \<and> s' = s) \<and>
     (d \<noteq> e \<longrightarrow> a' = next_addr s \<and> ''dataset_group'' \<in> set (obs_keys (heap s a)) \<and>
        s' = s\<lparr>heap := (heap s)(a' :=
                 getitem_rows ext (ne_str (map (\<lambda>r. r ''dataset_group'') (obs (heap s a))) e)
                   (heap s a)),
               next_addr := Suc (next_addr s)\<rparr>)"
  using assms
  by (auto simp: drop_embedding_reference_def andthen_def deref_def lift_def alloc_def ret_def
      getitem_obs_def split: if_splits)

lemma drop_embedding_reference_obs:
  assumes "drop_embedding_reference ext a e d s = (Inr a', s')"
  shows "obs (heap s' a') =
     (if d \<noteq> e then filter (\<lambda>r. r ''dataset_group'' \<noteq> Str e) (obs (heap s a))
      else obs (heap s a))"
  using drop_embedding_reference_Inr [OF assms] by (auto simp: obs_getitem_rows_ne)


lemma andthen_eval_Inr: "m s = (Inr y, s1) \<Longrightarrow> andthen m f s = f y s1"
  by (simp add: andthen_def)

lemma andthen_eval_Inl: "m s = (Inl x, s1) \<Longrightarrow> andthen m f s = (Inl x, s1)"
  by (simp add: andthen_def)

lemma scArches_milo_after_subset:
  "subset_datasets ext adata e d s = (Inr a, s1) \<Longrightarrow>
   scArches_milo ext adata e d sc ac alpha outdir ho design kw s =
     andthen (embedding_step ext a e outdir kw)
       (\<lambda>_. lines_98_to_118 ext a e d sc ac alpha ho design) s1"
  by (simp add: scArches_milo_def andthen_eval_Inr)

lemma scArches_milo_subset_raises:
  "subset_datasets ext adata e d s = (Inl x, s1) \<Longrightarrow>
   scArches_milo ext adata e d sc ac alpha outdir ho design kw s = (Inl x, s1)"
  by (simp add: scArches_milo_def andthen_eval_Inl)



lemma embedding_step_present:
  "obsm (heap s a) ''X_scVI'' = Some z \<Longrightarrow> embedding_step ext a e outdir kw s = (Inr (), s)"
  by (simp add: embedding_step_def andthen_def deref_def ret_def)






lemma lines_98_to_118_calls:
  assumes "lines_98_to_118 ext a e d sc ac alpha ho design s = (r, s')"
  shows "\<exists>calls. trace s' = trace s @ calls \<and>
     list_all (\<lambda>c. library_of c = Scanpy \<or> library_of c = Milopy) calls"
proof -
  have "preserves (extends (trace s) (\<lambda>c. library_of c = Scanpy \<or> library_of c = Milopy))
      (\<lambda>u. True) (lines_98_to_118 ext a e d sc ac alpha ho design)"
    by (rule lines_98_to_118_preserves [where G = "\<lambda>u. True"])
       (simp_all add: extends_alloc extends_store extends_log)
  from preserves_state [OF this extends_init assms] show ?thesis by (simp add: extends_def)
qed

lemma zip_pick: "zip (pick sel xs) (pick sel ys) = pick sel (zip xs ys)"
proof (induction sel arbitrary: xs ys)
  case Nil
  then show ?case by (simp add: pick_def)
next
  case (Cons b sel)
  show ?case
  proof (cases xs)
    case Nil
    then show ?thesis by (simp add: pick_def)
  next
    case xs: (Cons x xs')
    show ?thesis
    proof (cases ys)
      case Nil
      then show ?thesis by (simp add: pick_def)
    next
      case (Cons y ys')
      with xs Cons.IH [of xs' ys'] show ?thesis by (simp add: pick_def)
    qed
  qed
qed

lemma pick_map_zip: "pick (map P xs) (zip xs ys) = filter (\<lambda>(x, y). P x) (zip xs ys)"
proof (induction xs arbitrary: ys)
  case Nil
  then show ?case by (simp add: pick_def)
next
  case (Cons x xs)
  from Cons.IH show ?case by (cases ys) (simp_all add: pick_def)
qed

lemma getitem_rows_zip:
  assumes "obsm v key = Some X"
  shows "\<exists>X'. obsm (getitem_rows ext (map P (obs v)) v) key = Some X' \<and> ncols X' = ncols X \<and>
     zip (obs (getitem_rows ext (map P (obs v)) v)) (mrows X') =
       filter (\<lambda>(r, x). P r) (zip (obs v) (mrows X))"
  using assms by (simp add: getitem_rows_def zip_pick pick_map_zip)

lemma isin_map: "isin (map f xs) vals = map (\<lambda>r. f r \<in> Str ` set vals) xs"
  by (simp add: isin_def)

lemma ne_str_map: "ne_str (map f xs) x = map (\<lambda>r. f r \<noteq> Str x) xs"
  by (simp add: ne_str_def)




lemma andthen_cases:
  assumes "andthen m f s = (r, s')"
  shows "(\<exists>x. m s = (Inl x, s') \<and> r = Inl x) \<or> (\<exists>y s1. m s = (Inr y, s1) \<and> f y s1 = (r, s'))"
proof (cases "m s")
  case (Pair r1 s1)
  show ?thesis
  proof (cases r1)
    case (Inl x)
    with Pair assms show ?thesis by (simp add: andthen_def)
  next
    case (Inr y)
    with Pair assms show ?thesis by (simp add: andthen_def)
  qed
qed

lemma make_knn_trace:
  assumes "make_knn ext a d sc s = (r, s')"
  shows "trace s' = trace s \<or>
     trace s' = trace s @ [Call_neighbors (heap s a) ''X_scVI''
       (5 * (distinct_samples (heap s a) d sc + distinct_samples (heap s a) ''query'' sc))]"
proof (cases "n_samples ext (heap s a) d sc")
  case (Inl x)
  with assms show ?thesis by (simp add: make_knn_def andthen_def deref_def lift_def)
next
  case n1: (Inr n1)
  show ?thesis
  proof (cases "n_samples ext (heap s a) ''query'' sc")
    case (Inl x)
    with assms n1 show ?thesis by (simp add: make_knn_def andthen_def deref_def lift_def)
  next
    case n2: (Inr n2)
    have k: "(n1 + n2) * 5 =
        5 * (distinct_samples (heap s a) d sc + distinct_samples (heap s a) ''query'' sc)"
      using n_samples_eq [OF n1] n_samples_eq [OF n2] by simp
    from assms n1 n2 show ?thesis
      unfolding k [symmetric]
      by (auto simp: make_knn_def andthen_def deref_def lift_def log_def in_place_def store_def
          split: sum.splits)
  qed
qed

text \<open>Every call of the graph builder in lines 98 to 118 is on the collection left by the drop.\<close>

lemma lines_98_to_118_neighbors:
  assumes "lines_98_to_118 ext a e d sc ac alpha ho design s = (r, s')"
  shows "\<exists>calls. trace s' = trace s @ calls \<and>
     (\<forall>v rep k. Call_neighbors v rep k \<in> set calls \<longrightarrow>
        (\<exists>a' s3. drop_embedding_reference ext a e d s = (Inr a', s3) \<and> v = heap s3 a'))"
proof -
  from andthen_cases [OF assms] show ?thesis
  proof
    assume "\<exists>x. drop_embedding_reference ext a e d s = (Inl x, s') \<and> r = Inl x"
    then obtain x where "drop_embedding_reference ext a e d s = (Inl x, s')" by blast
    from drop_embedding_reference_same_trace [OF this] show ?thesis by simp
  next
    assume "\<exists>y s1. drop_embedding_reference ext a e d s = (Inr y, s1) \<and>
      andthen (make_knn ext y d sc) (\<lambda>_.
        andthen (run_milo ext y ''query'' d sc ac design) (\<lambda>_.
        andthen (if ho then in_place (harmonize alpha) y else ret ()) (\<lambda>_. ret y))) s1 = (r, s')"
    then obtain a' s3 where dr: "drop_embedding_reference ext a e d s = (Inr a', s3)"
      and r3: "andthen (make_knn ext a' d sc) (\<lambda>_.
        andthen (run_milo ext a' ''query'' d sc ac design) (\<lambda>_.
        andthen (if ho then in_place (harmonize alpha) a' else ret ()) (\<lambda>_. ret a'))) s3 = (r, s')"
      by blast
    have t3: "trace s3 = trace s" by (rule drop_embedding_reference_same_trace [OF dr])
    let ?c = "Call_neighbors (heap s3 a') ''X_scVI''
       (5 * (distinct_samples (heap s3 a') d sc + distinct_samples (heap s3 a') ''query'' sc))"
    have "\<exists>kn cm. trace s' = trace s3 @ kn @ cm \<and> set kn \<subseteq> {?c} \<and>
        list_all (\<lambda>c. library_of c = Milopy) cm"
      using andthen_cases [OF r3]
    proof
      assume "\<exists>x. make_knn ext a' d sc s3 = (Inl x, s') \<and> r = Inl x"
      then obtain x where "make_knn ext a' d sc s3 = (Inl x, s')" by blast
      from make_knn_trace [OF this]
      have "trace s' = trace s3 @ [] @ [] \<or> trace s' = trace s3 @ [?c] @ []"
        by simp
      then show ?thesis
      proof
        assume "trace s' = trace s3 @ [] @ []"
        then have "trace s' = trace s3 @ [] @ [] \<and> set [] \<subseteq> {?c} \<and>
            list_all (\<lambda>c. library_of c = Milopy) []"
          by simp
        then show ?thesis by blast
      next
        assume "trace s' = trace s3 @ [?c] @ []"
        then have "trace s' = trace s3 @ [?c] @ [] \<and> set [?c] \<subseteq> {?c} \<and>
            list_all (\<lambda>c. library_of c = Milopy) []"
          by simp
        then show ?thesis by blast
      qed
    next
      assume "\<exists>y s1. make_knn ext a' d sc s3 = (Inr y, s1) \<and>
        andthen (run_milo ext a' ''query'' d sc ac design) (\<lambda>_.
          andthen (if ho then in_place (harmonize alpha) a' else ret ()) (\<lambda>_. ret a')) s1 = (r, s')"
      then obtain u s4 where k: "make_knn ext a' d sc s3 = (Inr u, s4)"
        and r4: "andthen (run_milo ext a' ''query'' d sc ac design) (\<lambda>_.
          andthen (if ho then in_place (harmonize alpha) a' else ret ()) (\<lambda>_. ret a')) s4 = (r, s')"
        by blast
      have t4: "trace s4 = trace s3 @ [?c]" using make_knn_Inr [OF k] by auto
      have "\<exists>cm. trace s' = trace s4 @ cm \<and> list_all (\<lambda>c. library_of c = Milopy) cm"
        using andthen_cases [OF r4]
      proof
        assume "\<exists>x. run_milo ext a' ''query'' d sc ac design s4 = (Inl x, s') \<and> r = Inl x"
        then obtain x where "run_milo ext a' ''query'' d sc ac design s4 = (Inl x, s')" by blast
        then show ?thesis by (rule run_milo_calls)
      next
        assume "\<exists>y s1. run_milo ext a' ''query'' d sc ac design s4 = (Inr y, s1) \<and>
          andthen (if ho then in_place (harmonize alpha) a' else ret ()) (\<lambda>_. ret a') s1 = (r, s')"
        then obtain u5 s5 where m: "run_milo ext a' ''query'' d sc ac design s4 = (Inr u5, s5)"
          and r5: "andthen (if ho then in_place (harmonize alpha) a' else ret ()) (\<lambda>_. ret a') s5
            = (r, s')"
          by blast
        have "trace s' = trace s5"
          using andthen_cases [OF r5]
        proof
          assume "\<exists>x. (if ho then in_place (harmonize alpha) a' else ret ()) s5 = (Inl x, s') \<and> r = Inl x"
          then obtain x where "(if ho then in_place (harmonize alpha) a' else ret ()) s5 = (Inl x, s')"
            by blast
          then show ?thesis by (rule harmonize_step_trace)
        next
          assume "\<exists>y s1. (if ho then in_place (harmonize alpha) a' else ret ()) s5 = (Inr y, s1) \<and>
            ret a' s1 = (r, s')"
          then obtain u6 s6 where h: "(if ho then in_place (harmonize alpha) a' else ret ()) s5 = (Inr u6, s6)"
            and "ret a' s6 = (r, s')" by blast
          then have "s' = s6" by (simp add: ret_def)
          with harmonize_step_trace [OF h] show ?thesis by simp
        qed
        with run_milo_calls [OF m] show ?thesis by simp
      qed
      then obtain cm where "trace s' = trace s4 @ cm" "list_all (\<lambda>c. library_of c = Milopy) cm"
        by blast
      with t4 have "trace s' = trace s3 @ [?c] @ cm \<and> set [?c] \<subseteq> {?c} \<and>
          list_all (\<lambda>c. library_of c = Milopy) cm"
        by simp
      then show ?thesis by blast
    qed
    then obtain kn cm where tr: "trace s' = trace s3 @ kn @ cm" and kn: "set kn \<subseteq> {?c}"
      and cm: "list_all (\<lambda>c. library_of c = Milopy) cm"
      by blast
    have "\<forall>v rep k. Call_neighbors v rep k \<in> set (kn @ cm) \<longrightarrow> v = heap s3 a'"
    proof (intro allI impI)
      fix v rep k assume "Call_neighbors v rep k \<in> set (kn @ cm)"
      then have "Call_neighbors v rep k \<in> set kn \<or> Call_neighbors v rep k \<in> set cm" by simp
      then show "v = heap s3 a'"
      proof
        assume "Call_neighbors v rep k \<in> set kn"
        with kn show ?thesis by auto
      next
        assume "Call_neighbors v rep k \<in> set cm"
        with cm have False by (auto simp: list_all_iff)
        then show ?thesis ..
      qed
    qed
    with tr t3 dr show ?thesis by auto
  qed
qed

section \<open>The runs on the small cohort\<close>

lemma distinct_samples_code:
  "distinct_samples v grp sc =
     length (remdups (map (\<lambda>r. r sc) (filter (\<lambda>r. r ''dataset_group'' = Str grp) (obs v))))"
  by (simp add: distinct_samples_def length_remdups_card_conv)

lemmas eval_simps = prims_apply stages_apply ops cohort_defs List.map_filter_simps

lemma plain_run_facts:
  "case plain_run of (r, s) \<Rightarrow>
     r = Inr 2 \<and>
     heap s 0 = cohort \<and>
     map library_of (trace s) = [Embedding, Scanpy, Milopy, Milopy, Milopy, Milopy] \<and>
     List.map_filter neighbors_k (trace s) = [25] \<and>
     map (\<lambda>v. (distinct_samples v ''ctrl'' ''sample_id'', distinct_samples v ''query'' ''sample_id''))
       (List.map_filter neighbors_arg (trace s)) = [(2, 3)] \<and>
     map (\<lambda>v. map (\<lambda>c. c ''dataset_group'') (obs v)) (List.map_filter neighbors_arg (trace s)) =
       [[Str ''query'', Str ''ctrl'', Str ''query'', Str ''ctrl'', Str ''query'']] \<and>
     map (\<lambda>v. map (\<lambda>c. (c ''dataset_group'', c ''is_query'')) (obs v))
       (List.map_filter DA_arg (trace s)) =
       [[(Str ''query'', Flag True), (Str ''ctrl'', Flag False), (Str ''query'', Flag True),
         (Str ''ctrl'', Flag False), (Str ''query'', Flag True)]] \<and>
     map_option (\<lambda>t. map OOR_signif (var t)) (uns_sample_adata (heap s 2)) = Some [1, 0, 0, 0]"
  unfolding plain_run_def
  by (simp add: eval_simps distinct_samples_code harmonize_row_def signif_def fgt_def float_0_1_def
        cong: eval_congs)

lemma plain_run_ok: "plain_run = (Inr 2, snd plain_run)"
  using plain_run_facts by (simp add: prod_eq_iff split: prod.splits)

lemma plain_run_eq:
  "scArches_milo stand_in 0 ''atlas'' ''ctrl'' ''sample_id'' ''cell_annotation''
     float_0_1 None True ''~ is_query'' [] caller_state = (Inr 2, snd plain_run)"
  using plain_run_ok by (simp add: plain_run_def)

lemma plain_run_snd:
  "heap (snd plain_run) 0 = cohort"
  "map library_of (trace (snd plain_run)) = [Embedding, Scanpy, Milopy, Milopy, Milopy, Milopy]"
  "List.map_filter neighbors_k (trace (snd plain_run)) = [25]"
  "map (\<lambda>v. (distinct_samples v ''ctrl'' ''sample_id'', distinct_samples v ''query'' ''sample_id''))
     (List.map_filter neighbors_arg (trace (snd plain_run))) = [(2, 3)]"
  "map (\<lambda>v. map (\<lambda>c. c ''dataset_group'') (obs v))
     (List.map_filter neighbors_arg (trace (snd plain_run))) =
     [[Str ''query'', Str ''ctrl'', Str ''query'', Str ''ctrl'', Str ''query'']]"
  "map (\<lambda>v. map (\<lambda>c. (c ''dataset_group'', c ''is_query'')) (obs v))
     (List.map_filter DA_arg (trace (snd plain_run))) =
     [[(Str ''query'', Flag True), (Str ''ctrl'', Flag False), (Str ''query'', Flag True),
       (Str ''ctrl'', Flag False), (Str ''query'', Flag True)]]"
  "map_option (\<lambda>t. map OOR_signif (var t)) (uns_sample_adata (heap (snd plain_run) 2)) =
     Some [1, 0, 0, 0]"
  using plain_run_facts by (simp_all add: case_prod_beta)

lemma embedded_run_facts:
  "case embedded_run of (r, s) \<Rightarrow>
     r = Inr 2 \<and>
     map library_of (trace s) = [Scanpy, Milopy, Milopy, Milopy, Milopy] \<and>
     map (\<lambda>v. map_option mrows (obsm v ''X_scVI'')) (List.map_filter neighbors_arg (trace s))
       = [Some [[Fin 2], [Fin 1], [Fin 2], [Fin 1], [Fin 2]]]"
  unfolding embedded_run_def
  by (simp add: eval_simps cohort_embedded_def embedded_state_def cong: eval_congs)

lemma embedded_run_snd:
  "fst embedded_run = Inr 2"
  "map library_of (trace (snd embedded_run)) = [Scanpy, Milopy, Milopy, Milopy, Milopy]"
  "map (\<lambda>v. map_option mrows (obsm v ''X_scVI'')) (List.map_filter neighbors_arg (trace (snd embedded_run)))
     = [Some [[Fin 2], [Fin 1], [Fin 2], [Fin 1], [Fin 2]]]"
  using embedded_run_facts by (simp_all add: case_prod_beta)








section \<open>Significance flag of the harmonised table\<close>

lemma flt_irrefl: "\<not> flt x x"
  by (cases x) simp_all

lemma harmonize_Inr:
  assumes "harmonize alpha v = Inr v'"
  shows "\<exists>nh g. uns_nhood_adata v = Some nh \<and> obsm v ''nhoods'' = Some g \<and>
     v' = v\<lparr>uns_sample_adata :=
            Some \<lparr>var = map (harmonize_row alpha) (nhood_obs nh), varm_groups = transpose_nd g\<rparr>\<rparr>"
  using assms by (auto simp: harmonize_def split: option.splits if_splits)

lemma signif_iff: "signif alpha r = 1 \<longleftrightarrow> flt (SpatialFDR r) alpha \<and> fgt (logFC r) (Fin 0)"
  by (simp add: signif_def)

lemma signif_range: "signif alpha r = 0 \<or> signif alpha r = 1"
  by (simp add: signif_def)

lemma signif_at_threshold: "SpatialFDR r = alpha \<Longrightarrow> signif alpha r = 0"
  by (simp add: signif_def flt_irrefl)

lemma signif_at_zero: "logFC r = Fin 0 \<Longrightarrow> signif alpha r = 0"
  by (simp add: signif_def fgt_def flt_irrefl)

text \<open>
  C1. When the workflow returns with harmonisation requested, the returned collection
  carries the harmonised table, with one row per row of the neighbourhood table of the
  differential test and the same fold-change and corrected p-value. In every row,
  \<open>OOR_score\<close> is the fold-change, and \<open>OOR_signif\<close> is 1 if and only if the corrected
  p-value is strictly below \<open>signif_alpha\<close> and the fold-change is strictly above 0, and
  is 0 otherwise; so it is 0 when the p-value equals the threshold and when the
  fold-change is 0.
\<close>

theorem OOR_signif_iff:
  assumes "scArches_milo ext adata embedding_reference diff_reference sample_col annotation_col
             signif_alpha outdir True milo_design kwargs s = (Inr a, s')"
  shows "\<exists>nh sa.
     uns_nhood_adata (heap s' a) = Some nh \<and> uns_sample_adata (heap s' a) = Some sa \<and>
     length (var sa) = length (nhood_obs nh) \<and>
     (\<forall>i < length (nhood_obs nh).
        logFC (var sa ! i) = logFC (nhood_obs nh ! i) \<and>
        SpatialFDR (var sa ! i) = SpatialFDR (nhood_obs nh ! i) \<and>
        OOR_score (var sa ! i) = logFC (nhood_obs nh ! i) \<and>
        (OOR_signif (var sa ! i) = 1 \<longleftrightarrow>
           flt (SpatialFDR (var sa ! i)) signif_alpha \<and> fgt (logFC (var sa ! i)) (Fin 0)) \<and>
        (OOR_signif (var sa ! i) = 0 \<or> OOR_signif (var sa ! i) = 1) \<and>
        (SpatialFDR (var sa ! i) = signif_alpha \<longrightarrow> OOR_signif (var sa ! i) = 0) \<and>
        (logFC (var sa ! i) = Fin 0 \<longrightarrow> OOR_signif (var sa ! i) = 0))"
proof -
  from scArches_milo_Inr [OF assms] obtain s5 where
    "in_place (harmonize signif_alpha) a s5 = (Inr (), s')" by auto
  then obtain v where v: "harmonize signif_alpha (heap s5 a) = Inr v" and "heap s' a = v"
    by (auto dest: in_place_Inr)
  from harmonize_Inr [OF v] obtain nh g where nh: "uns_nhood_adata (heap s5 a) = Some nh"
    and v': "v = (heap s5 a)\<lparr>uns_sample_adata :=
            Some \<lparr>var = map (harmonize_row signif_alpha) (nhood_obs nh),
                  varm_groups = transpose_nd g\<rparr>\<rparr>"
    by blast
  let ?sa = "\<lparr>var = map (harmonize_row signif_alpha) (nhood_obs nh),
              varm_groups = transpose_nd g\<rparr>"
  have a: "uns_nhood_adata (heap s' a) = Some nh" using nh v' \<open>heap s' a = v\<close> by simp
  have b: "uns_sample_adata (heap s' a) = Some ?sa" using v' \<open>heap s' a = v\<close> by simp
  have c: "length (var ?sa) = length (nhood_obs nh)" by simp
  have d: "\<forall>i < length (nhood_obs nh).
        logFC (var ?sa ! i) = logFC (nhood_obs nh ! i) \<and>
        SpatialFDR (var ?sa ! i) = SpatialFDR (nhood_obs nh ! i) \<and>
        OOR_score (var ?sa ! i) = logFC (nhood_obs nh ! i) \<and>
        (OOR_signif (var ?sa ! i) = 1 \<longleftrightarrow>
           flt (SpatialFDR (var ?sa ! i)) signif_alpha \<and> fgt (logFC (var ?sa ! i)) (Fin 0)) \<and>
        (OOR_signif (var ?sa ! i) = 0 \<or> OOR_signif (var ?sa ! i) = 1) \<and>
        (SpatialFDR (var ?sa ! i) = signif_alpha \<longrightarrow> OOR_signif (var ?sa ! i) = 0) \<and>
        (logFC (var ?sa ! i) = Fin 0 \<longrightarrow> OOR_signif (var ?sa ! i) = 0)"
    using signif_range signif_at_threshold signif_at_zero
    by (auto simp: harmonize_row_def signif_iff)
  from a b c d show ?thesis by blast
qed

theorem OOR_signif_iff_witness:
  "plain_run = (Inr 2, snd plain_run) \<and>
   (\<exists>nh sa.
     uns_nhood_adata (heap (snd plain_run) 2) = Some nh \<and>
     uns_sample_adata (heap (snd plain_run) 2) = Some sa \<and>
     length (var sa) = length (nhood_obs nh) \<and>
     (\<forall>i < length (nhood_obs nh).
        logFC (var sa ! i) = logFC (nhood_obs nh ! i) \<and>
        SpatialFDR (var sa ! i) = SpatialFDR (nhood_obs nh ! i) \<and>
        OOR_score (var sa ! i) = logFC (nhood_obs nh ! i) \<and>
        (OOR_signif (var sa ! i) = 1 \<longleftrightarrow>
           flt (SpatialFDR (var sa ! i)) float_0_1 \<and> fgt (logFC (var sa ! i)) (Fin 0)) \<and>
        (OOR_signif (var sa ! i) = 0 \<or> OOR_signif (var sa ! i) = 1) \<and>
        (SpatialFDR (var sa ! i) = float_0_1 \<longrightarrow> OOR_signif (var sa ! i) = 0) \<and>
        (logFC (var sa ! i) = Fin 0 \<longrightarrow> OOR_signif (var sa ! i) = 0))) \<and>
   map_option (\<lambda>t. map OOR_signif (var t)) (uns_sample_adata (heap (snd plain_run) 2)) =
     Some [1, 0, 0, 0]"
  using OOR_signif_iff [OF plain_run_eq] plain_run_ok plain_run_snd(7) by blast

section \<open>Row order of a loaded embedding\<close>




section \<open>Neighbour count of the graph builder\<close>



section \<open>Failure of the load\<close>



section \<open>An embedding that is already there\<close>

text \<open>
  C5. On a collection that carries a matrix under \<open>X_scVI\<close>, the embedding step does
  nothing: it returns in the state it started in, so no model is loaded, no latent
  representation is asked for and the embedding procedure is not called. Whether the run
  returns or raises, all its calls go to the graph builder and the differential test.
  When it returns, the graph was built once, on a collection in which every cell that is
  left still has the row of the matrix it came with.
\<close>

theorem embedding_skipped:
  assumes present: "obsm (heap s adata) ''X_scVI'' = Some z"
    and run: "scArches_milo ext adata embedding_reference diff_reference sample_col
                annotation_col signif_alpha outdir harmonize_output milo_design kwargs s = (r, s')"
  shows "\<exists>calls. trace s' = trace s @ calls \<and>
     list_all (\<lambda>c. library_of c = Scanpy \<or> library_of c = Milopy) calls \<and>
     (\<forall>a s1. subset_datasets ext adata embedding_reference diff_reference s = (Inr a, s1) \<longrightarrow>
        embedding_step ext a embedding_reference outdir kwargs s1 = (Inr (), s1)) \<and>
     (\<forall>a'. r = Inr a' \<longrightarrow>
        (\<exists>w k X. filter (\<lambda>c. library_of c = Scanpy) calls = [Call_neighbors w ''X_scVI'' k] \<and>
           obsm w ''X_scVI'' = Some X \<and> ncols X = ncols z \<and>
           zip (obs w) (mrows X) =
             filter (\<lambda>(c, x).
                 c ''dataset_group'' \<in> {Str embedding_reference, Str diff_reference, Str ''query''} \<and>
                 (diff_reference \<noteq> embedding_reference \<longrightarrow>
                    c ''dataset_group'' \<noteq> Str embedding_reference))
               (zip (obs (heap s adata)) (mrows z))))"
proof (cases "subset_datasets ext adata embedding_reference diff_reference s")
  case (Pair r1 s1)
  show ?thesis
  proof (cases r1)
    case (Inl x)
    with Pair have sub: "subset_datasets ext adata embedding_reference diff_reference s = (Inl x, s1)"
      by simp
    from scArches_milo_subset_raises [OF sub] run have "r = Inl x" "s' = s1" by simp_all
    moreover have "trace s1 = trace s" by (rule subset_datasets_same_trace [OF sub])
    ultimately show ?thesis using sub by simp
  next
    case (Inr a)
    with Pair have sub: "subset_datasets ext adata embedding_reference diff_reference s = (Inr a, s1)"
      by simp
    let ?P1 = "\<lambda>c. c ''dataset_group'' \<in> Str ` set [embedding_reference, diff_reference, ''query'']"
    let ?v1 = "getitem_rows ext (map ?P1 (obs (heap s adata))) (heap s adata)"
    have h1: "heap s1 a = ?v1" and a: "a = next_addr s" and n1: "next_addr s1 = Suc (next_addr s)"
      using subset_datasets_Inr [OF sub] by (simp_all add: isin_map)
    from getitem_rows_zip [OF present, of ext ?P1] obtain X1 where
      X1: "obsm ?v1 ''X_scVI'' = Some X1" "ncols X1 = ncols z"
        "zip (obs ?v1) (mrows X1) = filter (\<lambda>(c, x). ?P1 c) (zip (obs (heap s adata)) (mrows z))"
      by blast
    have es: "embedding_step ext a embedding_reference outdir kwargs s1 = (Inr (), s1)"
      by (rule embedding_step_present [of _ _ X1]) (use X1(1) h1 in simp)
    have t1: "trace s1 = trace s" by (rule subset_datasets_same_trace [OF sub])
    have rest: "lines_98_to_118 ext a embedding_reference diff_reference sample_col
        annotation_col signif_alpha harmonize_output milo_design s1 = (r, s')"
      using run scArches_milo_after_subset [OF sub] es by (simp add: andthen_apply)
    from lines_98_to_118_calls [OF rest] t1 obtain calls where
      calls: "trace s' = trace s @ calls"
        "list_all (\<lambda>c. library_of c = Scanpy \<or> library_of c = Milopy) calls"
      by auto
    have ret: "\<exists>w k X. filter (\<lambda>c. library_of c = Scanpy) calls = [Call_neighbors w ''X_scVI'' k] \<and>
           obsm w ''X_scVI'' = Some X \<and> ncols X = ncols z \<and>
           zip (obs w) (mrows X) =
             filter (\<lambda>(c, x).
                 c ''dataset_group'' \<in> {Str embedding_reference, Str diff_reference, Str ''query''} \<and>
                 (diff_reference \<noteq> embedding_reference \<longrightarrow>
                    c ''dataset_group'' \<noteq> Str embedding_reference))
               (zip (obs (heap s adata)) (mrows z))"
      if "r = Inr a'" for a'
    proof -
      from scArches_milo_Inr_calls [OF run [unfolded that]] sub es obtain s3 ce cm where
        dr: "drop_embedding_reference ext a embedding_reference diff_reference s1 = (Inr a', s3)"
        and ce: "list_all (\<lambda>c. library_of c = Scvi \<or> library_of c = Embedding) ce"
        and cm: "list_all (\<lambda>c. library_of c = Milopy) cm"
        and tr: "trace s' = trace s @ ce @
          [Call_neighbors (heap s3 a') ''X_scVI''
            (5 * (distinct_samples (heap s3 a') diff_reference sample_col +
                  distinct_samples (heap s3 a') ''query'' sample_col))] @ cm"
        by auto
      from tr calls(1) have c: "calls = ce @
          [Call_neighbors (heap s3 a') ''X_scVI''
            (5 * (distinct_samples (heap s3 a') diff_reference sample_col +
                  distinct_samples (heap s3 a') ''query'' sample_col))] @ cm"
        by simp
      have "filter (\<lambda>c. library_of c = Scanpy) ce = []"
        using ce by (auto simp: list_all_iff filter_empty_conv)
      moreover have "filter (\<lambda>c. library_of c = Scanpy) cm = []"
        using cm by (auto simp: list_all_iff filter_empty_conv)
      ultimately have f: "filter (\<lambda>c. library_of c = Scanpy) calls =
          [Call_neighbors (heap s3 a') ''X_scVI''
            (5 * (distinct_samples (heap s3 a') diff_reference sample_col +
                  distinct_samples (heap s3 a') ''query'' sample_col))]"
        unfolding c by simp
      have "\<exists>X. obsm (heap s3 a') ''X_scVI'' = Some X \<and> ncols X = ncols z \<and>
           zip (obs (heap s3 a')) (mrows X) =
             filter (\<lambda>(c, x).
                 c ''dataset_group'' \<in> {Str embedding_reference, Str diff_reference, Str ''query''} \<and>
                 (diff_reference \<noteq> embedding_reference \<longrightarrow>
                    c ''dataset_group'' \<noteq> Str embedding_reference))
               (zip (obs (heap s adata)) (mrows z))"
      proof (cases "diff_reference = embedding_reference")
        case True
        with drop_embedding_reference_Inr [OF dr] have "heap s3 a' = ?v1"
          using h1 by simp
        with X1 True show ?thesis by simp
      next
        case False
        let ?P2 = "\<lambda>c. c ''dataset_group'' \<noteq> Str embedding_reference"
        from drop_embedding_reference_Inr [OF dr] False
        have h3: "heap s3 a' = getitem_rows ext (map ?P2 (obs ?v1)) ?v1"
          using h1 by (simp add: ne_str_map)
        from getitem_rows_zip [OF X1(1), of ext ?P2] obtain X3 where
          X3: "obsm (getitem_rows ext (map ?P2 (obs ?v1)) ?v1) ''X_scVI'' = Some X3"
            "ncols X3 = ncols X1"
            "zip (obs (getitem_rows ext (map ?P2 (obs ?v1)) ?v1)) (mrows X3) =
               filter (\<lambda>(c, x). ?P2 c) (zip (obs ?v1) (mrows X1))"
          by blast
        have "zip (obs (heap s3 a')) (mrows X3) =
            filter (\<lambda>(c, x). ?P2 c) (filter (\<lambda>(c, x). ?P1 c) (zip (obs (heap s adata)) (mrows z)))"
          using X3(3) X1(3) h3 by simp
        also have "\<dots> = filter (\<lambda>(c, x).
                 c ''dataset_group'' \<in> {Str embedding_reference, Str diff_reference, Str ''query''} \<and>
                 (diff_reference \<noteq> embedding_reference \<longrightarrow>
                    c ''dataset_group'' \<noteq> Str embedding_reference))
               (zip (obs (heap s adata)) (mrows z))"
          using False by (auto simp: filter_filter intro!: filter_cong)
        finally show ?thesis using X3(1,2) X1(2) h3 by simp
      qed
      with f show ?thesis by blast
    qed
    have e: "\<forall>b s2. subset_datasets ext adata embedding_reference diff_reference s = (Inr b, s2) \<longrightarrow>
        embedding_step ext b embedding_reference outdir kwargs s2 = (Inr (), s2)"
      using sub es by simp
    from calls ret e show ?thesis by blast
  qed
qed

theorem embedding_skipped_witness:
  "obsm (heap embedded_state 0) ''X_scVI'' = Some \<lparr>ncols = 1, mrows = map latent_of (obs cohort)\<rparr> \<and>
   (\<exists>calls. trace (snd embedded_run) = trace embedded_state @ calls \<and>
     list_all (\<lambda>c. library_of c = Scanpy \<or> library_of c = Milopy) calls \<and>
     (\<forall>a s1. subset_datasets stand_in 0 ''atlas'' ''ctrl'' embedded_state = (Inr a, s1) \<longrightarrow>
        embedding_step stand_in a ''atlas'' (Some ''saved'') [] s1 = (Inr (), s1)) \<and>
     (\<forall>a'. fst embedded_run = Inr a' \<longrightarrow>
        (\<exists>w k X. filter (\<lambda>c. library_of c = Scanpy) calls = [Call_neighbors w ''X_scVI'' k] \<and>
           obsm w ''X_scVI'' = Some X \<and> ncols X = ncols \<lparr>ncols = 1, mrows = map latent_of (obs cohort)\<rparr> \<and>
           zip (obs w) (mrows X) =
             filter (\<lambda>(c, x).
                 c ''dataset_group'' \<in> {Str ''atlas'', Str ''ctrl'', Str ''query''} \<and>
                 (''ctrl'' \<noteq> ''atlas'' \<longrightarrow> c ''dataset_group'' \<noteq> Str ''atlas''))
               (zip (obs (heap embedded_state 0))
                  (mrows \<lparr>ncols = 1, mrows = map latent_of (obs cohort)\<rparr>))))) \<and>
   fst embedded_run = Inr 2 \<and>
   map library_of (trace (snd embedded_run)) = [Scanpy, Milopy, Milopy, Milopy, Milopy] \<and>
   map (\<lambda>v. map_option mrows (obsm v ''X_scVI'')) (List.map_filter neighbors_arg (trace (snd embedded_run)))
     = [Some [[Fin 2], [Fin 1], [Fin 2], [Fin 1], [Fin 2]]]"
proof -
  have p: "obsm (heap embedded_state 0) ''X_scVI'' =
      Some \<lparr>ncols = 1, mrows = map latent_of (obs cohort)\<rparr>"
    by (simp add: embedded_state_def cohort_embedded_def)
  have r: "scArches_milo stand_in 0 ''atlas'' ''ctrl'' ''sample_id'' ''cell_annotation''
      float_0_1 (Some ''saved'') True ''~ is_query'' [] embedded_state
      = (fst embedded_run, snd embedded_run)"
    by (simp add: embedded_run_def)
  from embedding_skipped [OF p r] p embedded_run_snd show ?thesis by blast
qed

section \<open>No output directory\<close>



section \<open>Dropping the embedding reference\<close>

text \<open>
  C7. Whatever the outcome of the workflow, every call of the graph builder it makes is
  on the collection left by lines 99 and 100, reached after the subset and the embedding
  step have returned: if \<open>diff_reference\<close> differs from \<open>embedding_reference\<close>, this is a
  copy of the working collection without the cells whose group label is
  \<open>embedding_reference\<close>, all other cells kept in order; if the two are equal, it is the
  working collection itself and no cell is removed. A run that returns has called the
  graph builder exactly once.
\<close>

theorem embedding_reference_dropped:
  assumes run: "scArches_milo ext adata embedding_reference diff_reference sample_col
                  annotation_col signif_alpha outdir harmonize_output milo_design kwargs s
                = (r, s')"
  shows "\<exists>calls. trace s' = trace s @ calls \<and>
     (\<forall>v rep k. Call_neighbors v rep k \<in> set calls \<longrightarrow>
        (\<exists>a s1 s2 a' s3.
           subset_datasets ext adata embedding_reference diff_reference s = (Inr a, s1) \<and>
           embedding_step ext a embedding_reference outdir kwargs s1 = (Inr (), s2) \<and>
           drop_embedding_reference ext a embedding_reference diff_reference s2 = (Inr a', s3) \<and>
           v = heap s3 a' \<and>
           (diff_reference \<noteq> embedding_reference \<longrightarrow>
              obs v = filter (\<lambda>c. c ''dataset_group'' \<noteq> Str embedding_reference) (obs (heap s2 a)) \<and>
              (\<forall>c \<in> set (obs v). c ''dataset_group'' \<noteq> Str embedding_reference)) \<and>
           (diff_reference = embedding_reference \<longrightarrow>
              a' = a \<and> s3 = s2 \<and> obs v = obs (heap s2 a)))) \<and>
     (\<forall>a'. r = Inr a' \<longrightarrow> length (filter (\<lambda>c. library_of c = Scanpy) calls) = 1)"
proof -
  let ?rest = "\<lambda>a. lines_98_to_118 ext a embedding_reference diff_reference sample_col
      annotation_col signif_alpha harmonize_output milo_design"
  let ?Q = "\<lambda>calls. \<forall>v rep k. Call_neighbors v rep k \<in> set calls \<longrightarrow>
        (\<exists>a s1 s2 a' s3.
           subset_datasets ext adata embedding_reference diff_reference s = (Inr a, s1) \<and>
           embedding_step ext a embedding_reference outdir kwargs s1 = (Inr (), s2) \<and>
           drop_embedding_reference ext a embedding_reference diff_reference s2 = (Inr a', s3) \<and>
           v = heap s3 a' \<and>
           (diff_reference \<noteq> embedding_reference \<longrightarrow>
              obs v = filter (\<lambda>c. c ''dataset_group'' \<noteq> Str embedding_reference) (obs (heap s2 a)) \<and>
              (\<forall>c \<in> set (obs v). c ''dataset_group'' \<noteq> Str embedding_reference)) \<and>
           (diff_reference = embedding_reference \<longrightarrow>
              a' = a \<and> s3 = s2 \<and> obs v = obs (heap s2 a)))"
  have all: "\<exists>calls. trace s' = trace s @ calls \<and> ?Q calls"
  proof (cases "subset_datasets ext adata embedding_reference diff_reference s")
    case (Pair r1 s1)
    show ?thesis
    proof (cases r1)
      case (Inl x)
      with Pair have sub: "subset_datasets ext adata embedding_reference diff_reference s = (Inl x, s1)"
        by simp
      from scArches_milo_subset_raises [OF sub] run have "s' = s1" by simp
      with subset_datasets_same_trace [OF sub] have "trace s' = trace s @ []" by simp
      moreover have "?Q []" by simp
      ultimately show ?thesis by blast
    next
      case (Inr a)
      with Pair have sub: "subset_datasets ext adata embedding_reference diff_reference s = (Inr a, s1)"
        by simp
      have t1: "trace s1 = trace s" by (rule subset_datasets_same_trace [OF sub])
      have run': "andthen (embedding_step ext a embedding_reference outdir kwargs) (\<lambda>_. ?rest a) s1
          = (r, s')"
        using run scArches_milo_after_subset [OF sub] by simp
      from andthen_cases [OF run'] show ?thesis
      proof
        assume "\<exists>x. embedding_step ext a embedding_reference outdir kwargs s1 = (Inl x, s') \<and> r = Inl x"
        then obtain x where e: "embedding_step ext a embedding_reference outdir kwargs s1 = (Inl x, s')"
          by blast
        from embedding_step_calls [OF e] t1 obtain ce where
          ce: "trace s' = trace s @ ce"
            "list_all (\<lambda>c. library_of c = Scvi \<or> library_of c = Embedding) ce"
          by auto
        have "?Q ce"
        proof (intro allI impI)
          fix v rep k assume "Call_neighbors v rep k \<in> set ce"
          with ce(2) have False by (auto simp: list_all_iff)
          then show "\<exists>a s1 s2 a' s3.
           subset_datasets ext adata embedding_reference diff_reference s = (Inr a, s1) \<and>
           embedding_step ext a embedding_reference outdir kwargs s1 = (Inr (), s2) \<and>
           drop_embedding_reference ext a embedding_reference diff_reference s2 = (Inr a', s3) \<and>
           v = heap s3 a' \<and>
           (diff_reference \<noteq> embedding_reference \<longrightarrow>
              obs v = filter (\<lambda>c. c ''dataset_group'' \<noteq> Str embedding_reference) (obs (heap s2 a)) \<and>
              (\<forall>c \<in> set (obs v). c ''dataset_group'' \<noteq> Str embedding_reference)) \<and>
           (diff_reference = embedding_reference \<longrightarrow>
              a' = a \<and> s3 = s2 \<and> obs v = obs (heap s2 a))" ..
        qed
        with ce(1) show ?thesis by blast
      next
        assume "\<exists>y s2. embedding_step ext a embedding_reference outdir kwargs s1 = (Inr y, s2) \<and>
          ?rest a s2 = (r, s')"
        then obtain s2 where e: "embedding_step ext a embedding_reference outdir kwargs s1 = (Inr (), s2)"
          and rest: "?rest a s2 = (r, s')"
          by auto
        from embedding_step_calls [OF e] t1 obtain ce where
          ce: "trace s2 = trace s @ ce"
            "list_all (\<lambda>c. library_of c = Scvi \<or> library_of c = Embedding) ce"
          by auto
        from lines_98_to_118_neighbors [OF rest] obtain cr where
          cr: "trace s' = trace s2 @ cr"
          and nb: "\<forall>v rep k. Call_neighbors v rep k \<in> set cr \<longrightarrow>
            (\<exists>a' s3. drop_embedding_reference ext a embedding_reference diff_reference s2 = (Inr a', s3) \<and>
               v = heap s3 a')"
          by blast
        have "?Q (ce @ cr)"
        proof (intro allI impI)
          fix v rep k assume "Call_neighbors v rep k \<in> set (ce @ cr)"
          then have "Call_neighbors v rep k \<in> set ce \<or> Call_neighbors v rep k \<in> set cr" by simp
          then have "Call_neighbors v rep k \<in> set cr"
          proof
            assume "Call_neighbors v rep k \<in> set ce"
            with ce(2) have False by (auto simp: list_all_iff)
            then show ?thesis ..
          qed
          with nb obtain a' s3 where
            dr: "drop_embedding_reference ext a embedding_reference diff_reference s2 = (Inr a', s3)"
            and v: "v = heap s3 a'"
            by blast
          have o: "obs (heap s3 a') =
             (if diff_reference \<noteq> embedding_reference
              then filter (\<lambda>c. c ''dataset_group'' \<noteq> Str embedding_reference) (obs (heap s2 a))
              else obs (heap s2 a))"
            by (rule drop_embedding_reference_obs [OF dr])
          have d1: "diff_reference \<noteq> embedding_reference \<longrightarrow>
              obs v = filter (\<lambda>c. c ''dataset_group'' \<noteq> Str embedding_reference) (obs (heap s2 a)) \<and>
              (\<forall>c \<in> set (obs v). c ''dataset_group'' \<noteq> Str embedding_reference)"
            using o v by simp
          have d2: "diff_reference = embedding_reference \<longrightarrow>
              a' = a \<and> s3 = s2 \<and> obs v = obs (heap s2 a)"
            using drop_embedding_reference_Inr [OF dr] v by simp
          from sub e dr v d1 d2 show "\<exists>a s1 s2 a' s3.
           subset_datasets ext adata embedding_reference diff_reference s = (Inr a, s1) \<and>
           embedding_step ext a embedding_reference outdir kwargs s1 = (Inr (), s2) \<and>
           drop_embedding_reference ext a embedding_reference diff_reference s2 = (Inr a', s3) \<and>
           v = heap s3 a' \<and>
           (diff_reference \<noteq> embedding_reference \<longrightarrow>
              obs v = filter (\<lambda>c. c ''dataset_group'' \<noteq> Str embedding_reference) (obs (heap s2 a)) \<and>
              (\<forall>c \<in> set (obs v). c ''dataset_group'' \<noteq> Str embedding_reference)) \<and>
           (diff_reference = embedding_reference \<longrightarrow>
              a' = a \<and> s3 = s2 \<and> obs v = obs (heap s2 a))"
            by blast
        qed
        moreover have "trace s' = trace s @ (ce @ cr)" using ce(1) cr by simp
        ultimately show ?thesis by blast
      qed
    qed
  qed
  then obtain calls where calls: "trace s' = trace s @ calls" and q: "?Q calls" by blast
  have one: "length (filter (\<lambda>c. library_of c = Scanpy) calls) = 1" if "r = Inr a'" for a'
  proof -
    from scArches_milo_Inr_calls [OF run [unfolded that]] obtain a s1 s2 s3 ce cm where
      "subset_datasets ext adata embedding_reference diff_reference s = (Inr a, s1)"
      "embedding_step ext a embedding_reference outdir kwargs s1 = (Inr (), s2)"
      "drop_embedding_reference ext a embedding_reference diff_reference s2 = (Inr a', s3)"
      and ce: "list_all (\<lambda>c. library_of c = Scvi \<or> library_of c = Embedding) ce"
      and cm: "list_all (\<lambda>c. library_of c = Milopy) cm"
      and tr: "trace s' = trace s @ ce @
       [Call_neighbors (heap s3 a') ''X_scVI''
          (5 * (distinct_samples (heap s3 a') diff_reference sample_col +
                distinct_samples (heap s3 a') ''query'' sample_col))] @ cm"
      by blast
    from tr calls have c: "calls = ce @
       [Call_neighbors (heap s3 a') ''X_scVI''
          (5 * (distinct_samples (heap s3 a') diff_reference sample_col +
                distinct_samples (heap s3 a') ''query'' sample_col))] @ cm"
      by simp
    have "filter (\<lambda>c. library_of c = Scanpy) ce = []"
      using ce by (auto simp: list_all_iff filter_empty_conv)
    moreover have "filter (\<lambda>c. library_of c = Scanpy) cm = []"
      using cm by (auto simp: list_all_iff filter_empty_conv)
    ultimately show ?thesis unfolding c by simp
  qed
  from calls q one show ?thesis by blast
qed

theorem embedding_reference_dropped_witness:
  "(\<exists>calls. trace (snd plain_run) = trace caller_state @ calls \<and>
     (\<forall>v rep k. Call_neighbors v rep k \<in> set calls \<longrightarrow>
        (\<exists>a s1 s2 a' s3.
           subset_datasets stand_in 0 ''atlas'' ''ctrl'' caller_state = (Inr a, s1) \<and>
           embedding_step stand_in a ''atlas'' None [] s1 = (Inr (), s2) \<and>
           drop_embedding_reference stand_in a ''atlas'' ''ctrl'' s2 = (Inr a', s3) \<and>
           v = heap s3 a' \<and>
           (''ctrl'' \<noteq> ''atlas'' \<longrightarrow>
              obs v = filter (\<lambda>c. c ''dataset_group'' \<noteq> Str ''atlas'') (obs (heap s2 a)) \<and>
              (\<forall>c \<in> set (obs v). c ''dataset_group'' \<noteq> Str ''atlas'')) \<and>
           (''ctrl'' = ''atlas'' \<longrightarrow> a' = a \<and> s3 = s2 \<and> obs v = obs (heap s2 a)))) \<and>
     (\<forall>a'. (Inr 2 :: exn + nat) = Inr a' \<longrightarrow>
        length (filter (\<lambda>c. library_of c = Scanpy) calls) = 1)) \<and>
   map (\<lambda>v. map (\<lambda>c. c ''dataset_group'') (obs v))
     (List.map_filter neighbors_arg (trace (snd plain_run))) =
     [[Str ''query'', Str ''ctrl'', Str ''query'', Str ''ctrl'', Str ''query'']]"
  using embedding_reference_dropped [OF plain_run_eq] plain_run_snd(5) by blast

section \<open>The presets\<close>

text \<open>
  C8. Each of the three presets is the workflow with the embedding reference and the
  differential reference fixed to atlas and ctrl, to atlas and atlas, and to ctrl and
  ctrl; every other parameter is the one the caller gives, or its default in the
  workflow. The two are the same program: the same result and the same effects from
  every state.
\<close>

theorem presets_forward:
  "scArches_atlas_milo_ctrl ext adata kw =
     scArches_milo ext adata ''atlas'' ''ctrl''
       (default ''sample_id'' (kw_sample_col kw)) (default ''cell_annotation'' (kw_annotation_col kw))
       (default float_0_1 (kw_signif_alpha kw)) (default None (kw_outdir kw))
       (default True (kw_harmonize_output kw)) (default ''~ is_query'' (kw_milo_design kw))
       (kw_rest kw) \<and>
   scArches_atlas_milo_atlas ext adata kw =
     scArches_milo ext adata ''atlas'' ''atlas''
       (default ''sample_id'' (kw_sample_col kw)) (default ''cell_annotation'' (kw_annotation_col kw))
       (default float_0_1 (kw_signif_alpha kw)) (default None (kw_outdir kw))
       (default True (kw_harmonize_output kw)) (default ''~ is_query'' (kw_milo_design kw))
       (kw_rest kw) \<and>
   scArches_ctrl_milo_ctrl ext adata kw =
     scArches_milo ext adata ''ctrl'' ''ctrl''
       (default ''sample_id'' (kw_sample_col kw)) (default ''cell_annotation'' (kw_annotation_col kw))
       (default float_0_1 (kw_signif_alpha kw)) (default None (kw_outdir kw))
       (default True (kw_harmonize_output kw)) (default ''~ is_query'' (kw_milo_design kw))
       (kw_rest kw)"
  by (simp add: scArches_atlas_milo_ctrl_def scArches_atlas_milo_atlas_def
      scArches_ctrl_milo_ctrl_def call_scArches_milo_def)

section \<open>The collection of the caller\<close>

text \<open>
  C9. The workflow never changes the collection it is called on, nor any other object
  the caller holds, whether it returns or raises: every statement that attaches a matrix
  or a table works on the copy made at line 79 or on the copy made at line 100. The
  collection it returns is a new object.
\<close>

theorem caller_collection_unchanged:
  assumes run: "scArches_milo ext adata embedding_reference diff_reference sample_col
                  annotation_col signif_alpha outdir harmonize_output milo_design kwargs s = (r, s')"
    and held: "adata < next_addr s"
  shows "heap s' adata = heap s adata \<and>
         (\<forall>b < next_addr s. heap s' b = heap s b) \<and>
         (\<forall>a. r = Inr a \<longrightarrow> next_addr s \<le> a \<and> a \<noteq> adata)"
proof -
  have f: "frame (heap s) (next_addr s) s" by (simp add: frame_def)
  have f': "frame (heap s) (next_addr s) s'"
    by (rule preserves_state [OF scArches_milo_frame f run])
  have fresh: "next_addr s \<le> a" if "r = Inr a" for a
    using preserves_Inr [OF scArches_milo_frame f] run that by blast
  from f' held fresh show ?thesis by (auto simp: frame_def)
qed

theorem caller_collection_unchanged_witness:
  "0 < next_addr caller_state \<and>
   heap (snd plain_run) 0 = heap caller_state 0 \<and>
   heap (snd plain_run) 0 = cohort \<and>
   next_addr caller_state \<le> 2 \<and> (2::nat) \<noteq> 0"
proof -
  have h: "0 < next_addr caller_state" by (simp add: caller_state_def)
  from caller_collection_unchanged [OF plain_run_eq h] h plain_run_snd(1)
  show ?thesis by simp
qed

section \<open>The query label\<close>



end
